theory Spec2Isabelle
  imports Complex_Main
begin

chapter \<open>DataScrub Pro: the cleaning engine (src/utils/cleaningEngine.ts)\<close>

section \<open>JavaScript strings\<close>

text \<open>
  A JavaScript string is a sequence of UTF-16 code units. A code unit is modelled by its
  numeric value, so the em-dash of the null tokens is \<open>0x2014\<close> and the byte-order mark
  is \<open>0xFEFF\<close>. \<open>js\<close> turns an ASCII literal into code units.
\<close>

type_synonym jstring = "nat list"

definition js :: "string \<Rightarrow> jstring" where
  "js s = map of_char s"

text \<open>
  The characters \<open>String.prototype.trim\<close> removes and the class \<open>\s\<close> matches
  (WhiteSpace and LineTerminator of ECMAScript).
\<close>

definition isWhite :: "nat \<Rightarrow> bool" where
  "isWhite c = (c = 0x09 \<or> c = 0x0A \<or> c = 0x0B \<or> c = 0x0C \<or> c = 0x0D \<or> c = 0x20
     \<or> c = 0xA0 \<or> c = 0x1680 \<or> (0x2000 \<le> c \<and> c \<le> 0x200A) \<or> c = 0x2028 \<or> c = 0x2029
     \<or> c = 0x202F \<or> c = 0x205F \<or> c = 0x3000 \<or> c = 0xFEFF)"

definition trim :: "jstring \<Rightarrow> jstring" where
  "trim s = rev (dropWhile isWhite (rev (dropWhile isWhite s)))"

definition startsWith :: "jstring \<Rightarrow> jstring \<Rightarrow> bool" where
  "startsWith s p = (take (length p) s = p)"

definition endsWith :: "jstring \<Rightarrow> jstring \<Rightarrow> bool" where
  "endsWith s p = (length p \<le> length s \<and> drop (length s - length p) s = p)"

text \<open>\<open>s.slice(1, -1)\<close>: from index 1 up to the last code unit, empty when \<open>s\<close> has
  fewer than two.\<close>

definition slice1m1 :: "jstring \<Rightarrow> jstring" where
  "slice1m1 s = butlast (tl s)"

text \<open>The number of matches of a one-character global pattern such as \<open>/,/g\<close>.\<close>

definition countChar :: "nat \<Rightarrow> jstring \<Rightarrow> nat" where
  "countChar c s = length (filter (\<lambda>x. x = c) s)"

abbreviation (input) dquote :: nat where "dquote \<equiv> 0x22"
abbreviation (input) comma :: nat where "comma \<equiv> 0x2C"
abbreviation (input) tabc :: nat where "tabc \<equiv> 0x09"
abbreviation (input) semicolon :: nat where "semicolon \<equiv> 0x3B"
abbreviation (input) pipe :: nat where "pipe \<equiv> 0x7C"
abbreviation (input) newline :: nat where "newline \<equiv> 0x0A"
abbreviation (input) creturn :: nat where "creturn \<equiv> 0x0D"

section \<open>Row parser, separator detector, cell quoting\<close>

text \<open>
  A finished cell of \<open>parseCSVLine\<close>: trimmed, and stripped of one pair of wrapping
  quotes when the trimmed text both starts and ends with a quote.
\<close>

definition finishCell :: "jstring \<Rightarrow> jstring" where
  "finishCell cell =
     (let trimmed = trim cell
      in if startsWith trimmed [dquote] \<and> endsWith trimmed [dquote] then slice1m1 trimmed
         else trimmed)"

text \<open>
  The scanning loop of \<open>parseCSVLine\<close>. The index \<open>i\<close> only moves forward, so the
  loop runs over the rest of the line; \<open>line[i + 1]\<close> is the head of what follows. \<open>sep\<close>
  is a string: a code unit ends a cell when the one-character string of it equals \<open>sep\<close>.
\<close>

fun scanLine :: "jstring \<Rightarrow> bool \<Rightarrow> jstring \<Rightarrow> jstring list \<Rightarrow> jstring \<Rightarrow> jstring list" where
  "scanLine sep inQuotes cell cells [] = cells @ [finishCell cell]"
| "scanLine sep True cell cells [ch] =
     (if ch = dquote then scanLine sep False cell cells []
      else scanLine sep True (cell @ [ch]) cells [])"
| "scanLine sep True cell cells (ch # nxt # rest) =
     (if ch = dquote \<and> nxt = dquote then scanLine sep True (cell @ [dquote]) cells rest
      else if ch = dquote then scanLine sep False cell cells (nxt # rest)
      else scanLine sep True (cell @ [ch]) cells (nxt # rest))"
| "scanLine sep False cell cells (ch # rest) =
     (if ch = dquote then scanLine sep True cell cells rest
      else if [ch] = sep then scanLine sep False [] (cells @ [finishCell cell]) rest
      else scanLine sep False (cell @ [ch]) cells rest)"

definition parseCSVLine :: "jstring \<Rightarrow> jstring \<Rightarrow> jstring list" where
  "parseCSVLine line sep = scanLine sep False [] [] line"

text \<open>
  \<open>detectSeparator\<close>: the entries of the count table in insertion order, sorted by
  descending count with the stable \<open>Array.prototype.sort\<close>; the key of the first entry.
\<close>

definition separatorCounts :: "jstring \<Rightarrow> (nat \<times> nat) list" where
  "separatorCounts line =
     [(comma, countChar comma line), (tabc, countChar tabc line),
      (semicolon, countChar semicolon line), (pipe, countChar pipe line)]"

definition detectSeparator :: "jstring \<Rightarrow> jstring" where
  "detectSeparator line = [fst (hd (sort_key (\<lambda>e. - int (snd e)) (separatorCounts line)))]"

text \<open>\<open>str.replace(/"/g, '""')\<close>.\<close>

definition doubleQuotes :: "jstring \<Rightarrow> jstring" where
  "doubleQuotes s = concat (map (\<lambda>c. if c = dquote then [dquote, dquote] else [c]) s)"

text \<open>\<open>quoteCell\<close> on a string argument (the \<open>null\<close>/\<open>undefined\<close> case is
  \<open>quoteCellOpt\<close>).\<close>

definition quoteCell :: "jstring \<Rightarrow> jstring" where
  "quoteCell str =
     (if comma \<in> set str \<or> dquote \<in> set str \<or> newline \<in> set str \<or> creturn \<in> set str
      then [dquote] @ doubleQuotes str @ [dquote]
      else str)"

definition quoteCellOpt :: "jstring option \<Rightarrow> jstring" where
  "quoteCellOpt v = (case v of None \<Rightarrow> [] | Some str \<Rightarrow> quoteCell str)"

section \<open>Case mapping, decimal strings, and the host\<close>

definition asciiLower :: "nat \<Rightarrow> nat" where
  "asciiLower c = (if 0x41 \<le> c \<and> c \<le> 0x5A then c + 0x20 else c)"

definition asciiUpper :: "nat \<Rightarrow> nat" where
  "asciiUpper c = (if 0x61 \<le> c \<and> c \<le> 0x7A then c - 0x20 else c)"

definition isDigit :: "nat \<Rightarrow> bool" where
  "isDigit c = (0x30 \<le> c \<and> c \<le> 0x39)"

definition isAlpha :: "nat \<Rightarrow> bool" where
  "isAlpha c = ((0x41 \<le> c \<and> c \<le> 0x5A) \<or> (0x61 \<le> c \<and> c \<le> 0x7A))"

text \<open>
  What the engine takes from the JavaScript host and the repository does not define:
  Unicode case mapping outside Basic Latin, the \<open>Date\<close> constructor (the local
  \<open>getFullYear()\<close>, \<open>getMonth()\<close> and \<open>getDate()\<close> of \<open>new Date(s)\<close>, or \<open>None\<close>
  when its time value is \<open>NaN\<close>), and the five characters
  \<open>Math.random().toString(36).substring(2, 7)\<close> yields for the placeholder name of
  the header cell at a given position.
\<close>

record host =
  hostLower :: "jstring \<Rightarrow> jstring"
  hostUpper :: "jstring \<Rightarrow> jstring"
  hostDate :: "jstring \<Rightarrow> (int \<times> nat \<times> nat) option"
  hostRandom :: "nat \<Rightarrow> jstring"

text \<open>
  \<open>toLowerCase\<close> and \<open>toUpperCase\<close>: on a string of Basic Latin code units they are
  the ASCII mappings whatever the host; elsewhere the host decides.
\<close>

definition toLowerCase :: "host \<Rightarrow> jstring \<Rightarrow> jstring" where
  "toLowerCase H s = (if list_all (\<lambda>c. c < 0x80) s then map asciiLower s else hostLower H s)"

definition toUpperCase :: "host \<Rightarrow> jstring \<Rightarrow> jstring" where
  "toUpperCase H s = (if list_all (\<lambda>c. c < 0x80) s then map asciiUpper s else hostUpper H s)"

text \<open>\<open>String(n)\<close> for a non-negative integer, and \<open>String(n).padStart(2, '0')\<close>.\<close>

fun decStr :: "nat \<Rightarrow> jstring" where
  "decStr n = (if n < 10 then [0x30 + n] else decStr (n div 10) @ [0x30 + n mod 10])"

declare decStr.simps [simp del]

definition padStart2 :: "jstring \<Rightarrow> jstring" where
  "padStart2 s = replicate (2 - length s) 0x30 @ s"

text \<open>\<open>Array.prototype.join\<close>.\<close>

fun joinWith :: "jstring \<Rightarrow> jstring list \<Rightarrow> jstring" where
  "joinWith sep [] = []"
| "joinWith sep [x] = x"
| "joinWith sep (x # y # ys) = x @ sep @ joinWith sep (y # ys)"

section \<open>Regular expressions\<close>

text \<open>
  The patterns of the engine are written as terms of \<open>rx\<close>. \<open>rxm r s\<close> lists what is
  left of \<open>s\<close> after each way \<open>r\<close> matches a prefix of it. Every starred pattern of the
  engine consumes a code unit per iteration, so \<open>length s\<close> iterations cover \<open>Star\<close>.
  \<open>rxFull\<close> is \<open>/^r$/.test\<close>, \<open>rxSearch\<close> is \<open>/r/.test\<close>. The bounded quantifiers
  are written out: \<open>\d{1,2}\<close> is a digit and an optional digit.
\<close>

datatype rx = Eps | Cls "nat \<Rightarrow> bool" | Cat rx rx | Alt rx rx | Star rx

primrec starM :: "(jstring \<Rightarrow> jstring list) \<Rightarrow> nat \<Rightarrow> jstring \<Rightarrow> jstring list" where
  "starM f 0 s = [s]"
| "starM f (Suc k) s = s # concat (map (starM f k) (f s))"

primrec rxm :: "rx \<Rightarrow> jstring \<Rightarrow> jstring list" where
  "rxm Eps s = [s]"
| "rxm (Cls p) s = (case s of [] \<Rightarrow> [] | c # t \<Rightarrow> if p c then [t] else [])"
| "rxm (Cat a b) s = concat (map (rxm b) (rxm a s))"
| "rxm (Alt a b) s = rxm a s @ rxm b s"
| "rxm (Star r) s = starM (rxm r) (length s) s"

definition rxFull :: "rx \<Rightarrow> jstring \<Rightarrow> bool" where
  "rxFull r s = ([] \<in> set (rxm r s))"

fun tails :: "jstring \<Rightarrow> jstring list" where
  "tails [] = [[]]"
| "tails (x # xs) = (x # xs) # tails xs"

definition rxSearch :: "rx \<Rightarrow> jstring \<Rightarrow> bool" where
  "rxSearch r s = list_ex (\<lambda>t. rxm r t \<noteq> []) (tails s)"

definition chr :: "nat \<Rightarrow> rx" where
  "chr c = Cls (\<lambda>x. x = c)"

definition cats :: "rx list \<Rightarrow> rx" where
  "cats rs = foldr Cat rs Eps"

definition alts :: "rx list \<Rightarrow> rx" where
  "alts rs = foldr Alt (butlast rs) (last rs)"

definition lit :: "string \<Rightarrow> rx" where
  "lit s = cats (map chr (js s))"

text \<open>
  A literal under the \<open>i\<close> flag. Without the \<open>u\<close> flag a code unit above Basic Latin
  never canonicalizes to a Basic Latin one, so only the two ASCII cases of a letter match.
\<close>

definition chrCI :: "nat \<Rightarrow> rx" where
  "chrCI c = Cls (\<lambda>x. asciiUpper x = asciiUpper c)"

definition litCI :: "string \<Rightarrow> rx" where
  "litCI s = cats (map chrCI (js s))"

definition digit :: rx where
  "digit = Cls isDigit"

abbreviation opt :: "rx \<Rightarrow> rx" where "opt r \<equiv> Alt r Eps"
abbreviation plus :: "rx \<Rightarrow> rx" where "plus r \<equiv> Cat r (Star r)"

text \<open>\<open>\d{2}\<close>, \<open>\d{3}\<close>, \<open>\d{4}\<close>, \<open>\d{1,2}\<close> and \<open>\d{1,3}\<close>.\<close>

definition d2 :: rx where "d2 = Cat digit digit"
definition d3 :: rx where "d3 = Cat digit (Cat digit digit)"
definition d4 :: rx where "d4 = Cat digit (Cat digit (Cat digit digit))"
definition d12 :: rx where "d12 = Cat digit (opt digit)"
definition d13 :: rx where "d13 = Cat digit (opt (Cat digit (opt digit)))"

section \<open>Global replacements\<close>

text \<open>\<open>s.replace(/[class]+/g, c)\<close>: every maximal run of the class becomes \<open>c\<close>.\<close>

function collapseRuns :: "(nat \<Rightarrow> bool) \<Rightarrow> jstring \<Rightarrow> jstring \<Rightarrow> jstring" where
  "collapseRuns p c [] = []"
| "collapseRuns p c (x # xs) =
     (if p x then c @ collapseRuns p c (dropWhile p xs) else x # collapseRuns p c xs)"
  by pat_completeness auto
termination
  by (relation "measure (\<lambda>(p, c, s). length s)")
     (auto simp: less_Suc_eq_le length_dropWhile_le)

text \<open>
  \<open>s.split(pat).join(rep)\<close> and \<open>s.replace(/pat/g, rep)\<close> for a literal pattern: the
  occurrences are taken from the left and do not overlap. \<open>eqc\<close> compares a code unit of
  the text with one of the pattern (equality, or equality up to ASCII case under the
  \<open>i\<close> flag).
\<close>

definition matchesAt :: "(nat \<Rightarrow> nat \<Rightarrow> bool) \<Rightarrow> jstring \<Rightarrow> jstring \<Rightarrow> bool" where
  "matchesAt eqc pat s = (length pat \<le> length s \<and> list_all2 eqc (take (length pat) s) pat)"

function replaceAllBy :: "(nat \<Rightarrow> nat \<Rightarrow> bool) \<Rightarrow> jstring \<Rightarrow> jstring \<Rightarrow> jstring \<Rightarrow> jstring" where
  "replaceAllBy eqc pat rep [] = []"
| "replaceAllBy eqc pat rep (x # xs) =
     (if pat \<noteq> [] \<and> matchesAt eqc pat (x # xs)
      then rep @ replaceAllBy eqc pat rep (drop (length pat) (x # xs))
      else x # replaceAllBy eqc pat rep xs)"
  by pat_completeness auto
termination
  by (relation "measure (\<lambda>(e, pat, rep, s). length s)") auto

definition replaceAll :: "jstring \<Rightarrow> jstring \<Rightarrow> jstring \<Rightarrow> jstring" where
  "replaceAll pat rep s = replaceAllBy (=) pat rep s"

definition replaceAllCI :: "jstring \<Rightarrow> jstring \<Rightarrow> jstring \<Rightarrow> jstring" where
  "replaceAllCI pat rep s = replaceAllBy (\<lambda>x c. asciiUpper x = asciiUpper c) pat rep s"

text \<open>\<open>s.replace(pat, rep)\<close> with a string pattern: the first occurrence only.\<close>

fun replaceFirst :: "jstring \<Rightarrow> jstring \<Rightarrow> jstring \<Rightarrow> jstring" where
  "replaceFirst pat rep [] = (if pat = [] then rep else [])"
| "replaceFirst pat rep (x # xs) =
     (if startsWith (x # xs) pat then rep @ drop (length pat) (x # xs)
      else x # replaceFirst pat rep xs)"

text \<open>\<open>s.replace(/^\uFEFF/, '')\<close>: one leading byte-order mark is removed.\<close>

definition stripBOM :: "jstring \<Rightarrow> jstring" where
  "stripBOM s = (case s of [] \<Rightarrow> [] | c # t \<Rightarrow> if c = 0xFEFF then t else s)"

text \<open>\<open>s.replace(/<[^>]*>/g, '')\<close>: from a \<open><\<close> through the next \<open>>\<close>, when there is one.\<close>

function removeTags :: "jstring \<Rightarrow> jstring" where
  "removeTags [] = []"
| "removeTags (x # xs) =
     (if x = 0x3C \<and> 0x3E \<in> set xs then removeTags (tl (dropWhile (\<lambda>c. c \<noteq> 0x3E) xs))
      else x # removeTags xs)"
  by pat_completeness auto
termination
proof (relation "measure length")
  show "wf (measure length)" by simp
next
  fix x :: nat and xs :: jstring
  have "length (dropWhile (\<lambda>c. c \<noteq> 0x3E) xs) \<le> length xs"
    by (rule length_dropWhile_le)
  then have "length (tl (dropWhile (\<lambda>c. c \<noteq> 0x3E) xs)) \<le> length xs"
    by simp
  then show "(tl (dropWhile (\<lambda>c. c \<noteq> 0x3E) xs), x # xs) \<in> measure length" by simp
next
  fix x :: nat and xs :: jstring
  show "(xs, x # xs) \<in> measure length" by simp
qed

text \<open>\<open>s.substring(a, b)\<close> for \<open>a \<le> b\<close>, and \<open>parseInt(s, 10)\<close> on a string of digits.\<close>

definition substring :: "nat \<Rightarrow> nat \<Rightarrow> jstring \<Rightarrow> jstring" where
  "substring a b s = take (b - a) (drop a s)"

definition parseDigits :: "jstring \<Rightarrow> nat" where
  "parseDigits s = foldl (\<lambda>a c. 10 * a + (c - 0x30)) 0 s"

section \<open>Cell transform library\<close>

definition looksLikeEmail :: "jstring \<Rightarrow> bool" where
  "looksLikeEmail str = (str \<noteq> [] \<and> 0x40 \<in> set str \<and> length str > 5)"

definition domainFixes :: "(jstring \<times> jstring) list" where
  "domainFixes =
     [(js ''gmial.com'', js ''gmail.com''), (js ''gmai.com'', js ''gmail.com''),
      (js ''gamil.com'', js ''gmail.com''), (js ''gnail.com'', js ''gmail.com''),
      (js ''gmail.co'', js ''gmail.com''), (js ''gmail.con'', js ''gmail.com''),
      (js ''yahooo.com'', js ''yahoo.com''), (js ''yahoo.con'', js ''yahoo.com''),
      (js ''hotmial.com'', js ''hotmail.com''), (js ''hotmail.con'', js ''hotmail.com''),
      (js ''outlok.com'', js ''outlook.com''), (js ''outlook.con'', js ''outlook.com'')]"

text \<open>The loop over the typo table: the first entry whose typo ends the address is applied
  (to the first occurrence of the typo), and the loop stops.\<close>

fun applyDomainFixes :: "(jstring \<times> jstring) list \<Rightarrow> jstring \<Rightarrow> jstring" where
  "applyDomainFixes [] fixed = fixed"
| "applyDomainFixes ((typo, correct) # rest) fixed =
     (if endsWith fixed (0x40 # typo) then replaceFirst (0x40 # typo) (0x40 # correct) fixed
      else applyDomainFixes rest fixed)"

definition notSpaceAt :: rx where
  "notSpaceAt = Cls (\<lambda>c. \<not> isWhite c \<and> c \<noteq> 0x40)"

definition emailShape :: rx where
  "emailShape = cats [plus notSpaceAt, chr 0x40, plus notSpaceAt, chr 0x2E, plus notSpaceAt]"

definition fixEmail :: "host \<Rightarrow> jstring \<Rightarrow> jstring" where
  "fixEmail H email =
     (if email = [] then email
      else let fixed = applyDomainFixes domainFixes
                 (collapseRuns (\<lambda>c. c = 0x2E) [0x2E]
                   (collapseRuns (\<lambda>c. c = comma) [comma]
                     (filter (\<lambda>c. \<not> isWhite c) (trim (toLowerCase H email)))))
           in if \<not> rxFull emailShape fixed then email else fixed)"

definition isPhoneChar :: "nat \<Rightarrow> bool" where
  "isPhoneChar c = (isDigit c \<or> isWhite c \<or> c = 0x2B \<or> c = 0x2D \<or> c = 0x2E \<or> c = 0x28 \<or> c = 0x29)"

definition looksLikePhone :: "jstring \<Rightarrow> bool" where
  "looksLikePhone str =
     (if str = [] then False
      else let trimmed = trim str;
               stripped = filter (\<lambda>c. \<not> isPhoneChar c) trimmed
           in if length stripped > 0 then False
              else let digits = filter isDigit trimmed
                   in length digits \<ge> 7 \<and> length digits \<le> 15)"

definition phoneColumnPattern :: rx where
  "phoneColumnPattern =
     alts [litCI ''phone'', litCI ''mobile'', litCI ''cell'', litCI ''fax'', litCI ''tel'',
           litCI ''contact_no'', litCI ''contact_num'', litCI ''whatsapp'']"

definition isPhoneColumnName :: "jstring \<Rightarrow> bool" where
  "isPhoneColumnName colName = rxSearch phoneColumnPattern colName"

definition standardizePhoneFn :: "jstring \<Rightarrow> jstring" where
  "standardizePhoneFn phone =
     (if phone = [] then phone
      else let digits = filter isDigit phone
           in if length digits = 10
              then js ''('' @ substring 0 3 digits @ js '') '' @ substring 3 6 digits @ js ''-''
                   @ drop 6 digits
              else if length digits = 11 \<and> hd digits = 0x31
              then js ''+1 ('' @ substring 1 4 digits @ js '') '' @ substring 4 7 digits @ js ''-''
                   @ drop 7 digits
              else if length digits \<ge> 11
              then let cc = substring 0 (length digits - 10) digits;
                       rest = drop (length digits - 10) digits
                   in js ''+'' @ cc @ js '' ('' @ substring 0 3 rest @ js '') ''
                      @ substring 3 6 rest @ js ''-'' @ drop 6 rest
              else phone)"

definition alpha :: rx where "alpha = Cls isAlpha"

definition datePatterns :: "rx list" where
  "datePatterns =
     [cats [d4, chr 0x2D, d12, chr 0x2D, d12], cats [d12, chr 0x2F, d12, chr 0x2F, d4],
      cats [d12, chr 0x2D, d12, chr 0x2D, d4], cats [d4, chr 0x2F, d12, chr 0x2F, d12],
      cats [d12, chr 0x2E, d12, chr 0x2E, d4], cats [d4, chr 0x2E, d12, chr 0x2E, d12],
      cats [plus alpha, chr 0x20, d12, opt (chr comma), chr 0x20, d4],
      cats [d12, chr 0x20, plus alpha, chr 0x20, d4]]"

text \<open>The loop over the patterns: at the first pattern the trimmed text matches and whose
  date is valid, the answer is whether the year lies in 1900..2100.\<close>

fun isValidDateLoop :: "host \<Rightarrow> jstring \<Rightarrow> rx list \<Rightarrow> bool" where
  "isValidDateLoop H str [] = False"
| "isValidDateLoop H str (pattern # rest) =
     (if rxFull pattern (trim str)
      then (case hostDate H str of
              Some (year, month, day) \<Rightarrow> year \<ge> 1900 \<and> year \<le> 2100
            | None \<Rightarrow> isValidDateLoop H str rest)
      else isValidDateLoop H str rest)"

definition isValidDate :: "host \<Rightarrow> jstring \<Rightarrow> bool" where
  "isValidDate H str =
     (if str = [] \<or> length str < 6 \<or> length str > 30 then False
      else if rxFull (plus digit) str \<and> length str > 8 then False
      else isValidDateLoop H str datePatterns)"

definition isDateSep :: "nat \<Rightarrow> bool" where
  "isDateSep c = (c = 0x2F \<or> c = 0x2D \<or> c = 0x2E)"

text \<open>The groups of \<open>/^(\d{1,2})[\/\-\.](\d{1,2})[\/\-\.](\d{4})$/\<close>: each of the first two
  is the whole run of digits before a separator.\<close>

definition matchDMY :: "jstring \<Rightarrow> (jstring \<times> jstring \<times> jstring) option" where
  "matchDMY s =
     (let d = takeWhile isDigit s; r1 = dropWhile isDigit s
      in if (length d = 1 \<or> length d = 2) \<and> r1 \<noteq> [] \<and> isDateSep (hd r1)
         then let m = takeWhile isDigit (tl r1); r2 = dropWhile isDigit (tl r1)
              in if (length m = 1 \<or> length m = 2) \<and> r2 \<noteq> [] \<and> isDateSep (hd r2)
                    \<and> length (tl r2) = 4 \<and> list_all isDigit (tl r2)
                 then Some (d, m, tl r2) else None
         else None)"

definition dateViaHost :: "host \<Rightarrow> jstring \<Rightarrow> jstring" where
  "dateViaHost H dateStr =
     (case hostDate H dateStr of
        Some (year, month, day) \<Rightarrow>
          if year \<ge> 1900 \<and> year \<le> 2100
          then decStr (nat year) @ js ''-'' @ padStart2 (decStr (month + 1)) @ js ''-''
               @ padStart2 (decStr day)
          else dateStr
      | None \<Rightarrow> dateStr)"

definition standardizeDateFn :: "host \<Rightarrow> jstring \<Rightarrow> jstring" where
  "standardizeDateFn H dateStr =
     (if dateStr = [] then dateStr
      else case matchDMY dateStr of
             Some (d, m, y) \<Rightarrow>
               (let day = parseDigits d; month = parseDigits m
                in if day > 12 \<and> month \<le> 12
                   then y @ js ''-'' @ padStart2 (decStr month) @ js ''-'' @ padStart2 (decStr day)
                   else dateViaHost H dateStr)
           | None \<Rightarrow> dateViaHost H dateStr)"

text \<open>\<open>str.split(/(\s+)/).map(...).join('')\<close>: the runs of white space stay, every other
  run has its first code unit upper-cased and the rest lower-cased.\<close>

function titleCase :: "host \<Rightarrow> jstring \<Rightarrow> jstring" where
  "titleCase H [] = []"
| "titleCase H (x # xs) =
     (if isWhite x then x # titleCase H xs
      else toUpperCase H [x] @ toLowerCase H (takeWhile (\<lambda>c. \<not> isWhite c) xs)
           @ titleCase H (dropWhile (\<lambda>c. \<not> isWhite c) xs))"
  by pat_completeness auto
termination
  by (relation "measure (\<lambda>(H, s). length s)")
     (auto simp: less_Suc_eq_le length_dropWhile_le)

definition emailColumn :: rx where
  "emailColumn = alts [lit ''email'', lit ''e_mail'']"

definition urlColumn :: rx where
  "urlColumn = alts [lit ''url'', lit ''website'', lit ''href'', lit ''link'']"

definition nameColumn :: rx where
  "nameColumn =
     alts [cats [opt (alts [litCI ''first'', litCI ''last'', litCI ''middle'', litCI ''full'']),
                 opt (chrCI 0x5F), litCI ''name''],
           litCI ''city'', litCI ''country'', litCI ''state'', litCI ''street'',
           litCI ''address'']"

definition normalizeCaseFn :: "host \<Rightarrow> jstring \<Rightarrow> jstring \<Rightarrow> jstring" where
  "normalizeCaseFn H str columnName =
     (if str = [] then str
      else let lower = toLowerCase H columnName
           in if rxSearch emailColumn lower then toLowerCase H str
              else if rxSearch urlColumn lower then toLowerCase H str
              else if rxFull nameColumn lower then titleCase H str
              else str)"

definition isControlChar :: "nat \<Rightarrow> bool" where
  "isControlChar c = (c \<le> 0x08 \<or> c = 0x0B \<or> c = 0x0C \<or> (0x0E \<le> c \<and> c \<le> 0x1F) \<or> c = 0x7F)"

definition removeSpecialCharsFn :: "jstring \<Rightarrow> jstring" where
  "removeSpecialCharsFn str = (if str = [] then str else filter (\<lambda>c. \<not> isControlChar c) str)"

definition removeHtmlTagsFn :: "jstring \<Rightarrow> jstring" where
  "removeHtmlTagsFn str =
     (if str = [] then str
      else replaceAllCI (js ''&#039;'') [0x27]
             (replaceAllCI (js ''&quot;'') [dquote]
               (replaceAllCI (js ''&gt;'') [0x3E]
                 (replaceAllCI (js ''&lt;'') [0x3C]
                   (replaceAllCI (js ''&amp;'') [0x26]
                     (replaceAllCI (js ''&nbsp;'') [0x20] (removeTags str)))))))"

definition isCurrency :: "nat \<Rightarrow> bool" where
  "isCurrency c = (c = 0x24 \<or> c = 0x20AC \<or> c = 0xA3 \<or> c = 0xA5 \<or> c = 0x20B9)"

definition groupedNumber :: rx where
  "groupedNumber =
     cats [d13, plus (cats [chr comma, d3]),
           opt (cats [chr 0x2E, plus digit])]"

definition fixNumberFormat :: "jstring \<Rightarrow> jstring" where
  "fixNumberFormat str =
     (if str = [] then str
      else let cleaned = trim (filter (\<lambda>c. \<not> isCurrency c) str)
           in if rxFull groupedNumber cleaned then filter (\<lambda>c. c \<noteq> comma) cleaned else str)"

definition encodingFixes :: "(jstring \<times> jstring) list" where
  "encodingFixes =
     [([0xC3, 0xA9], [0xE9]), ([0xC3, 0xA8], [0xE8]),
      ([0xC3, 0xA0], [0xE0]), ([0xC3, 0xA2], [0xE2]),
      ([0xC3, 0xAE], [0xEE]), ([0xC3, 0xB4], [0xF4]),
      ([0xC3, 0xBB], [0xFB]), ([0xC3, 0xA7], [0xE7]),
      ([0xC3, 0xBC], [0xFC]), ([0xC3, 0xB6], [0xF6]),
      ([0xC3, 0xA4], [0xE4]), ([0xC3, 0xB1], [0xF1]),
      ([0xE2, 0x80, 0x99], [0x27]), ([0xE2, 0x80, 0x9C], [dquote]),
      ([0xE2, 0x80, 0x9D], [dquote]), ([0xE2, 0x80, 0x94], [0x2014]),
      ([0xE2, 0x80, 0x93], [0x2013]), ([0xE2, 0x80, 0xA6], [0x2026]),
      ([0xC2, 0xA0], [0x20]), ([0xC2, 0xB0], [0xB0])]"

definition fixEncodingIssues :: "jstring \<Rightarrow> jstring" where
  "fixEncodingIssues str =
     (if str = [] then str
      else stripBOM (foldl (\<lambda>result (bad, good). replaceAll bad good result) str encodingFixes))"

definition fuzzyNormalize :: "host \<Rightarrow> jstring \<Rightarrow> jstring" where
  "fuzzyNormalize H str =
     filter (\<lambda>c. (0x61 \<le> c \<and> c \<le> 0x7A) \<or> isDigit c)
       (filter (\<lambda>c. \<not> isWhite c) (toLowerCase H str))"

section \<open>Type inference\<close>

datatype columnType =
  T_tinyint | T_smallint | T_int | T_bigint | T_decimal | T_decimal_money | T_bool
  | T_date | T_email | T_text | T_longtext | T_varchar | T_varchar_long

definition sampleNullish :: rx where
  "sampleNullish =
     alts [litCI ''null'', litCI ''NULL'', litCI ''N/A'', litCI ''na'', litCI ''none'',
           litCI ''undefined'', litCI ''nil'', chrCI 0x3F, chrCI 0x2D]"

definition intShape :: rx where
  "intShape = cats [opt (chr 0x2D), plus digit]"

definition decimalShape :: rx where
  "decimalShape =
     cats [opt (chr 0x2D), Star digit, opt (chr 0x2E), plus digit,
           opt (cats [Cls (\<lambda>c. c = 0x65 \<or> c = 0x45), opt (Cls (\<lambda>c. c = 0x2B \<or> c = 0x2D)),
                      plus digit])]"

definition boolShape :: rx where
  "boolShape =
     alts [litCI ''true'', litCI ''false'', litCI ''yes'', litCI ''no'', litCI ''0'', litCI ''1'',
           litCI ''t'', litCI ''f'', litCI ''y'', litCI ''n'']"

text \<open>
  The sample of one column: \<open>String(row[colIndex] || '').trim()\<close> of every row (a row too
  short gives the empty string), without the empty and the null-looking values.
\<close>

definition columnValues :: "nat \<Rightarrow> jstring list list \<Rightarrow> jstring list" where
  "columnValues colIndex sampleRows =
     filter (\<lambda>v. v \<noteq> [] \<and> \<not> rxFull sampleNullish v)
       (map (\<lambda>row. trim (if colIndex < length row then row ! colIndex else [])) sampleRows)"

text \<open>\<open>Math.abs(parseInt(v, 10))\<close> on an integer-shaped string. The tier bounds 128, 32768
  and 2147483648 are exact doubles and rounding is monotone, so comparing the exact
  integer gives the comparison of the doubles.\<close>

definition absParseInt :: "jstring \<Rightarrow> nat" where
  "absParseInt v = parseDigits (filter isDigit v)"

definition maxList :: "nat list \<Rightarrow> nat" where
  "maxList xs = foldr max xs 0"

text \<open>\<open>p = v.split('.'); p[1] ? p[1].length : 0\<close>.\<close>

definition fractionLength :: "jstring \<Rightarrow> nat" where
  "fractionLength v =
     (if 0x2E \<in> set v
      then length (takeWhile (\<lambda>c. c \<noteq> 0x2E) (tl (dropWhile (\<lambda>c. c \<noteq> 0x2E) v)))
      else 0)"

text \<open>
  \<open>count > n * 0.7\<close> in IEEE 754 double arithmetic. The double \<open>0.7\<close> is
  \<open>3152519739159347 / 2^52\<close>; the product with the integer \<open>n\<close> is rounded to 53
  significant bits, ties to even. \<open>times07 n\<close> is the numerator of the rounded product
  over \<open>2^52\<close>. \<open>count\<close> and \<open>n\<close> are array lengths, exact as doubles.
\<close>

fun bitlen :: "nat \<Rightarrow> nat" where
  "bitlen n = (if n = 0 then 0 else Suc (bitlen (n div 2)))"

declare bitlen.simps [simp del]

definition round53 :: "nat \<Rightarrow> nat" where
  "round53 p =
     (let e = bitlen p
      in if e \<le> 53 then p
         else let sh = e - 53; q = p div 2 ^ sh; r = p mod 2 ^ sh; h = 2 ^ (sh - 1)
              in (if r > h \<or> (r = h \<and> odd q) then q + 1 else q) * 2 ^ sh)"

definition times07 :: "nat \<Rightarrow> nat" where
  "times07 n = round53 (n * 3152519739159347)"

definition exceeds70 :: "nat \<Rightarrow> nat \<Rightarrow> bool" where
  "exceeds70 count n = (count * 2 ^ 52 > times07 n)"

text \<open>The type of one column, from its sample \<open>values\<close>.\<close>

definition detectType :: "host \<Rightarrow> jstring list \<Rightarrow> columnType" where
  "detectType H values =
     (if length values = 0 then T_varchar
      else if list_all (rxFull intShape) values
      then (let maxVal = maxList (map absParseInt values)
            in if maxVal < 128 then T_tinyint
               else if maxVal < 32768 then T_smallint
               else if maxVal < 2147483648 then T_int
               else T_bigint)
      else if list_all (rxFull decimalShape) values
      then (let maxDec = maxList (map fractionLength values)
            in if maxDec \<le> 2 then T_decimal_money else T_decimal)
      else if list_all (rxFull boolShape) values then T_bool
      else let dateCount = length (filter (isValidDate H) values)
           in if exceeds70 dateCount (length values) then T_date
              else let emailCount = length (filter looksLikeEmail values)
                   in if exceeds70 emailCount (length values) then T_email
                      else let maxLen = maxList (map length values)
                           in if maxLen > 5000 then T_longtext
                              else if maxLen > 500 then T_text
                              else if maxLen > 255 then T_varchar_long
                              else T_varchar)"

definition detectColumnTypes :: "host \<Rightarrow> jstring list \<Rightarrow> jstring list list \<Rightarrow> (jstring \<rightharpoonup> columnType)" where
  "detectColumnTypes H headers sampleRows =
     foldl (\<lambda>types (header, colIndex).
              types(header \<mapsto> detectType H (columnValues colIndex sampleRows)))
       Map.empty (zip headers [0 ..< length headers])"

section \<open>Lines and re-parsing of the output\<close>

text \<open>\<open>text.split(/\r?\n|\r/)\<close>.\<close>

fun splitAcc :: "jstring \<Rightarrow> jstring \<Rightarrow> jstring list" where
  "splitAcc cur [] = [cur]"
| "splitAcc cur [c] = (if c = newline \<or> c = creturn then [cur, []] else [cur @ [c]])"
| "splitAcc cur (c # d # cs) =
     (if c = creturn \<and> d = newline then cur # splitAcc [] cs
      else if c = newline \<or> c = creturn then cur # splitAcc [] (d # cs)
      else splitAcc (cur @ [c]) (d # cs))"

definition splitLines :: "jstring \<Rightarrow> jstring list" where
  "splitLines s = splitAcc [] s"

text \<open>
  \<open>getAllDataRows\<close>: the non-blank lines of every chunk but the first line of chunk 0,
  parsed; the loops stop as soon as \<open>maxRows\<close> rows are collected (a missing or zero
  \<open>maxRows\<close> is no limit).
\<close>

definition chunkDataRows :: "jstring \<Rightarrow> nat \<Rightarrow> jstring \<Rightarrow> jstring list list" where
  "chunkDataRows separator c chunk =
     map (\<lambda>line. parseCSVLine line separator)
       (filter (\<lambda>line. trim line \<noteq> []) (drop (if c = 0 then 1 else 0) (splitLines chunk)))"

definition getAllDataRows :: "jstring list \<Rightarrow> nat option \<Rightarrow> jstring \<Rightarrow> jstring list list" where
  "getAllDataRows chunks maxRows separator =
     (let rows = concat (map (\<lambda>(c, chunk). chunkDataRows separator c chunk)
                          (zip [0 ..< length chunks] chunks))
      in case maxRows of
           None \<Rightarrow> rows
         | Some m \<Rightarrow> if m = 0 then rows else take m rows)"

section \<open>Configuration, file, and the state of a run\<close>

datatype cleaningMode = Standard | Advanced

record cleaningConfig =
  tableName :: jstring
  pkColumn :: jstring
  eol :: jstring
  encoding :: jstring
  mode :: cleaningMode
  removeDuplicates :: bool
  removeEmpty :: bool
  trimWhitespace :: bool
  normalizeValues :: bool
  fixEncoding :: bool
  fuzzyDuplicates :: bool
  validateEmail :: bool
  standardizePhone :: bool
  normalizeCase :: bool
  standardizeDate :: bool
  detectOutliers :: bool
  removeSpecialChars :: bool
  crossFieldValidation :: bool
  fillMissing :: bool
  standardizeAddress :: bool
  removeHtmlTags :: bool
  fixNumberFormats :: bool
  generateId :: bool
  removeRowsWithEmptyValues :: bool

record cleaningStats =
  original :: nat
  cleaned :: nat
  removed :: nat
  cols :: nat
  fixed :: nat

text \<open>
  The input file: its size in bytes, and the text \<open>readChunkAsText\<close> decodes from the
  slice that starts at a given offset (\<open>None\<close>: the read fails and the run is rejected).
\<close>

record inputFile =
  fileSize :: nat
  readChunkAsText :: "nat \<Rightarrow> jstring option"

definition CHUNK_SIZE :: nat where
  "CHUNK_SIZE = 1024 * 1024"

text \<open>
  The local variables of \<open>processFile\<close> (\<open>offset\<close> is a parameter of the chunk
  loop). \<open>progressCalls\<close> is the percent of every call
  of \<open>onProgress\<close>, in call order, as an exact rational. \<open>rowLog\<close> records, for every
  row that reaches the row-level filters, its cells after the transform pass and the
  output cells it is serialized from (\<open>None\<close> when the row is dropped); the engine does
  not read it. The log sink and the numeric samples of the outlier report do not
  influence the produced output and are left out.
\<close>

record procState =
  leftover :: jstring
  cleanedDataChunks :: "jstring list"
  rowBuffer :: "jstring list"
  separator :: jstring
  isFirstChunk :: bool
  rawHeaders :: "jstring list"
  fileHeaders :: "jstring list"
  sourceIdColIndex :: int
  hasGeneratedId :: bool
  seenHashes :: "jstring set"
  fuzzyHashes :: "jstring set"
  totalOriginalRows :: nat
  totalCleanedRows :: nat
  totalFixedCells :: nat
  fuzzyDupCount :: nat
  columnMismatchCount :: nat
  idCounter :: nat
  progressCalls :: "rat list"
  rowLog :: "(jstring list \<times> jstring list option) list"

definition initialState :: procState where
  "initialState =
     \<lparr> leftover = [], cleanedDataChunks = [], rowBuffer = [], separator = [],
       isFirstChunk = True, rawHeaders = [], fileHeaders = [], sourceIdColIndex = - 1,
       hasGeneratedId = False, seenHashes = {}, fuzzyHashes = {}, totalOriginalRows = 0,
       totalCleanedRows = 0, totalFixedCells = 0, fuzzyDupCount = 0, columnMismatchCount = 0,
       idCounter = 1, progressCalls = [], rowLog = [] \<rparr>"

definition getEolChar :: "jstring \<Rightarrow> jstring" where
  "getEolChar e =
     (if e = js ''CRLF'' then [creturn, newline]
      else if e = js ''CR'' then [creturn]
      else if e = js ''LFCR'' then [newline, creturn]
      else if e = js ''NEL'' then [0x85]
      else if e = js ''LS'' then [0x2028]
      else if e = js ''PS'' then [0x2029]
      else [newline])"

section \<open>Header processing\<close>

definition isWordChar :: "nat \<Rightarrow> bool" where
  "isWordChar c = (isAlpha c \<or> isDigit c \<or> c = 0x5F)"

definition stripUnderscores :: "jstring \<Rightarrow> jstring" where
  "stripUnderscores s =
     rev (dropWhile (\<lambda>c. c = 0x5F) (rev (dropWhile (\<lambda>c. c = 0x5F) s)))"

text \<open>\<open>sanitizeColumnName\<close>; \<open>rnd\<close> is what \<open>Math.random().toString(36).substring(2, 7)\<close>
  gives when the sanitized name is empty.\<close>

definition sanitizeColumnName :: "host \<Rightarrow> jstring \<Rightarrow> jstring \<Rightarrow> jstring" where
  "sanitizeColumnName H rnd name =
     (let s = toLowerCase H
                (collapseRuns (\<lambda>c. c = 0x5F) [0x5F]
                  (stripUnderscores
                    (map (\<lambda>c. if isWordChar c then c else 0x5F) (stripBOM (trim name)))))
      in if s = [] then js ''col_'' @ rnd else s)"

text \<open>
  The de-duplication of the header names with the table \<open>nameCount\<close>. The table is a
  plain object, so the inherited property \<open>constructor\<close> is never \<open>undefined\<close>: that
  name is counted from the first time on, and its count is \<open>NaN\<close>.
\<close>

fun dedupeHeaders :: "(jstring \<rightharpoonup> nat) \<Rightarrow> jstring list \<Rightarrow> jstring list" where
  "dedupeHeaders nameCount [] = []"
| "dedupeHeaders nameCount (h # hs) =
     (if h = js ''constructor'' then (h @ js ''_NaN'') # dedupeHeaders nameCount hs
      else case nameCount h of
             Some n \<Rightarrow> (h @ js ''_'' @ decStr (n + 1)) # dedupeHeaders (nameCount(h \<mapsto> n + 1)) hs
           | None \<Rightarrow> h # dedupeHeaders (nameCount(h \<mapsto> 0)) hs)"

text \<open>\<open>Array.prototype.findIndex\<close>, and \<open>xs.filter((_, i) => i !== k)\<close>.\<close>

fun findIndex :: "('a \<Rightarrow> bool) \<Rightarrow> 'a list \<Rightarrow> int" where
  "findIndex P [] = - 1"
| "findIndex P (x # xs) =
     (if P x then 0 else let r = findIndex P xs in if r = - 1 then - 1 else r + 1)"

definition exceptIndex :: "int \<Rightarrow> 'a list \<Rightarrow> 'a list" where
  "exceptIndex k xs = map (\<lambda>i. xs ! i) (filter (\<lambda>i. int i \<noteq> k) [0 ..< length xs])"

definition headerLine :: "jstring list \<Rightarrow> jstring \<Rightarrow> jstring" where
  "headerLine hdrs eolChar = joinWith [comma] (map quoteCell hdrs) @ eolChar"

text \<open>The header block of the chunk loop: it runs on the first chunk that has a line, and
  returns the lines that remain.\<close>

definition processHeader ::
  "cleaningConfig \<Rightarrow> host \<Rightarrow> procState \<Rightarrow> jstring list \<Rightarrow> procState \<times> jstring list" where
  "processHeader config H st lines =
     (if isFirstChunk st \<and> length lines > 0
      then let line0 = (case hd lines of [] \<Rightarrow> [] | c # t \<Rightarrow> if c = 0xFEFF then t else c # t);
               sep = detectSeparator line0;
               cells = parseCSVLine line0 sep;
               raw = dedupeHeaders Map.empty
                       (map (\<lambda>(i, h). sanitizeColumnName H (hostRandom H i) h)
                          (zip [0 ..< length cells] cells));
               idx = findIndex (\<lambda>h. toLowerCase H h = js ''id'') raw;
               st1 = (if generateId config
                      then st\<lparr> sourceIdColIndex := idx,
                               fileHeaders := js ''id'' # (if idx = - 1 then raw else exceptIndex idx raw),
                               hasGeneratedId := True \<rparr>
                      else st\<lparr> fileHeaders := raw, hasGeneratedId := False,
                               sourceIdColIndex := - 1 \<rparr>)
           in (st1\<lparr> separator := sep, rawHeaders := raw,
                    cleanedDataChunks :=
                      cleanedDataChunks st @ [headerLine (fileHeaders st1) (getEolChar (eol config))],
                    isFirstChunk := False \<rparr>,
               tl lines)
      else (st, lines))"

section \<open>Row pipeline\<close>

definition countQuotes :: "jstring \<Rightarrow> nat" where
  "countQuotes s = countChar dquote s"

text \<open>The merge of a line with unbalanced quotes with the lines that follow it.\<close>

function mergeQuoted :: "jstring list \<Rightarrow> nat \<Rightarrow> jstring \<Rightarrow> nat \<Rightarrow> nat \<times> jstring" where
  "mergeQuoted lines li line merges =
     (if li + 1 < length lines \<and> countQuotes line mod 2 = 1 \<and> merges < 50
      then mergeQuoted lines (li + 1) (line @ [newline] @ lines ! (li + 1)) (merges + 1)
      else (li, line))"
  by pat_completeness auto
termination
  by (relation "measure (\<lambda>(lines, li, line, merges). 50 - merges)") auto

declare mergeQuoted.simps [simp del]

text \<open>The progressive re-merge with up to ten following lines: the first merge whose cell
  count is \<open>n\<close>, with the index of the last line it took.\<close>

function tryMerge ::
  "jstring list \<Rightarrow> nat \<Rightarrow> nat \<Rightarrow> jstring \<Rightarrow> jstring \<Rightarrow> nat \<Rightarrow> (jstring list \<times> nat) option" where
  "tryMerge lines li n sep attempt m =
     (if m \<le> 10 \<and> li + m < length lines
      then let attempt' = attempt @ [newline] @ lines ! (li + m);
               attemptCells = parseCSVLine attempt' sep
           in if length attemptCells = n then Some (attemptCells, li + m)
              else tryMerge lines li n sep attempt' (m + 1)
      else None)"
  by pat_completeness auto
termination
  by (relation "measure (\<lambda>(lines, li, n, sep, attempt, m). 11 - m)") auto

declare tryMerge.simps [simp del]

definition normalizeCells :: "nat \<Rightarrow> jstring list \<Rightarrow> jstring list" where
  "normalizeCells n rawCells =
     (if length rawCells < n then rawCells @ replicate (n - length rawCells) []
      else take n rawCells)"

subsection \<open>Transform pass\<close>

definition nullToken :: rx where
  "nullToken =
     alts [lit ''null'', lit ''NULL'', lit ''Null'', lit ''N/A'', lit ''n/a'', lit ''NA'',
           lit ''na'', lit ''none'', lit ''None'', lit ''NONE'', lit ''undefined'',
           lit ''Undefined'', lit ''nil'', lit ''NIL'', chr 0x3F, lit ''#N/A'', lit ''#VALUE!'',
           lit ''#REF!'', lit ''#NAME?'', lit ''#DIV/0!'', chr 0x2D, chr 0x2014,
           cats [chr 0x2E, chr 0x2E, Star (chr 0x2E)]]"

definition trimCollapse :: "jstring \<Rightarrow> jstring" where
  "trimCollapse c = trim (collapseRuns isWhite [0x20] c)"

definition normalizeValue :: "jstring \<Rightarrow> jstring" where
  "normalizeValue c = (let val = trim c in if rxFull nullToken val then [] else val)"

definition countChanged :: "(jstring \<Rightarrow> jstring) \<Rightarrow> jstring list \<Rightarrow> nat" where
  "countChanged f cells = length (filter (\<lambda>c. f c \<noteq> c) cells)"

text \<open>The three transforms of both modes; the second component counts the cells fixed.\<close>

definition standardPass :: "cleaningConfig \<Rightarrow> jstring list \<Rightarrow> jstring list \<times> nat" where
  "standardPass config cells =
     (let (c1, n1) = (if fixEncoding config
                      then (map fixEncodingIssues cells, countChanged fixEncodingIssues cells)
                      else (cells, 0));
          (c2, n2) = (if trimWhitespace config
                      then (map trimCollapse c1, countChanged trimCollapse c1)
                      else (c1, 0));
          (c3, n3) = (if normalizeValues config
                      then (map normalizeValue c2,
                            length (filter (\<lambda>c. rxFull nullToken (trim c)) c2))
                      else (c2, 0))
      in (c3, n1 + n2 + n3))"

definition tagLike :: rx where
  "tagLike = cats [chr 0x3C, plus (Cls (\<lambda>c. c \<noteq> 0x3E)), chr 0x3E]"

text \<open>One guarded transform of the advanced loop: \<open>f\<close> runs when the guard holds, and the
  cell counts as fixed when \<open>f\<close> changed it.\<close>

definition applyWhen ::
  "(jstring \<Rightarrow> bool) \<Rightarrow> (jstring \<Rightarrow> jstring) \<Rightarrow> jstring \<times> nat \<Rightarrow> jstring \<times> nat" where
  "applyWhen g f cn =
     (case cn of (c, n) \<Rightarrow>
        if g c then (let r = f c in if r \<noteq> c then (r, n + 1) else (c, n)) else (c, n))"

definition phoneGuard :: "cleaningConfig \<Rightarrow> jstring \<Rightarrow> jstring \<Rightarrow> bool" where
  "phoneGuard config colName c =
     (standardizePhone config \<and> isPhoneColumnName colName \<and> looksLikePhone c)"

definition phoneStep :: "cleaningConfig \<Rightarrow> jstring \<Rightarrow> jstring \<times> nat \<Rightarrow> jstring \<times> nat" where
  "phoneStep config colName = applyWhen (phoneGuard config colName) standardizePhoneFn"

text \<open>The body of the advanced loop for one cell of the column \<open>colName\<close>.\<close>

definition advancedCell :: "cleaningConfig \<Rightarrow> host \<Rightarrow> jstring \<Rightarrow> jstring \<Rightarrow> jstring \<times> nat" where
  "advancedCell config H colName c =
     (let a1 = applyWhen (\<lambda>c. removeHtmlTags config \<and> c \<noteq> [] \<and> rxSearch tagLike c)
                 removeHtmlTagsFn (c, 0);
          a2 = applyWhen (\<lambda>c. validateEmail config \<and> looksLikeEmail c) (fixEmail H) a1;
          a3 = phoneStep config colName a2;
          a4 = applyWhen (\<lambda>c. standardizeDate config \<and> isValidDate H c) (standardizeDateFn H) a3;
          a5 = applyWhen (\<lambda>c. normalizeCase config \<and> c \<noteq> [])
                 (\<lambda>c. normalizeCaseFn H c colName) a4;
          a6 = applyWhen (\<lambda>c. removeSpecialChars config \<and> c \<noteq> []) removeSpecialCharsFn a5;
          a7 = applyWhen (\<lambda>c. fixNumberFormats config \<and> c \<noteq> []) fixNumberFormat a6
      in a7)"

text \<open>The advanced loop over the cells; the slot of the source id column is skipped. The
  cells are aligned with \<open>hdrs\<close> (the raw headers) when the loop runs.\<close>

definition advancedPass ::
  "cleaningConfig \<Rightarrow> host \<Rightarrow> jstring list \<Rightarrow> int \<Rightarrow> jstring list \<Rightarrow> jstring list \<times> nat" where
  "advancedPass config H hdrs sid cells =
     (let rs = map (\<lambda>i. if int i = sid then (cells ! i, 0)
                         else advancedCell config H (hdrs ! i) (cells ! i))
                 [0 ..< length cells]
      in (map fst rs, sum_list (map snd rs)))"

definition transformRow ::
  "cleaningConfig \<Rightarrow> host \<Rightarrow> jstring list \<Rightarrow> int \<Rightarrow> jstring list \<Rightarrow> jstring list \<times> nat" where
  "transformRow config H hdrs sid cells =
     (let (c3, n) = standardPass config cells;
          (c4, m) = (if mode config = Advanced then advancedPass config H hdrs sid c3
                     else (c3, 0))
      in (c4, n + m))"

subsection \<open>Row filters, deduplication, output assembly\<close>

definition isBlank :: "jstring \<Rightarrow> bool" where
  "isBlank c = (trim c = [])"

definition dedupeKeyOf :: "int \<Rightarrow> jstring list \<Rightarrow> jstring" where
  "dedupeKeyOf sid cells = joinWith [0] (exceptIndex sid cells)"

definition fuzzyKeyOf :: "host \<Rightarrow> int \<Rightarrow> jstring list \<Rightarrow> jstring" where
  "fuzzyKeyOf H sid cells = joinWith [0] (map (fuzzyNormalize H) (exceptIndex sid cells))"

definition clampCells :: "nat \<Rightarrow> jstring list \<Rightarrow> jstring list" where
  "clampCells n outputCells =
     (if length outputCells < n then outputCells @ replicate (n - length outputCells) []
      else if length outputCells > n then take n outputCells
      else outputCells)"

definition assembleOutput :: "procState \<Rightarrow> jstring list \<Rightarrow> jstring list" where
  "assembleOutput st rawCells =
     (if hasGeneratedId st
      then decStr (idCounter st)
           # map (\<lambda>i. rawCells ! i)
               (filter (\<lambda>i. int i \<noteq> sourceIdColIndex st) [0 ..< length (rawHeaders st)])
      else rawCells)"

definition dropRow :: "procState \<Rightarrow> jstring list \<Rightarrow> procState" where
  "dropRow st rawCells = st\<lparr> rowLog := rowLog st @ [(rawCells, None)] \<rparr>"

definition emitRow :: "cleaningConfig \<Rightarrow> procState \<Rightarrow> jstring list \<Rightarrow> procState" where
  "emitRow config st rawCells =
     (let outputCells = clampCells (length (fileHeaders st)) (assembleOutput st rawCells);
          st1 = st\<lparr> idCounter := (if hasGeneratedId st then idCounter st + 1 else idCounter st),
                   rowBuffer := rowBuffer st @ [joinWith [comma] (map quoteCell outputCells)],
                   totalCleanedRows := totalCleanedRows st + 1,
                   rowLog := rowLog st @ [(rawCells, Some outputCells)] \<rparr>
      in if length (rowBuffer st1) \<ge> 1000
         then st1\<lparr> cleanedDataChunks :=
                      cleanedDataChunks st1
                      @ [joinWith (getEolChar (eol config)) (rowBuffer st1) @ getEolChar (eol config)],
                    rowBuffer := [] \<rparr>
         else st1)"

text \<open>What happens to a row after the transform pass: the two empty-row filters, exact
  deduplication, fuzzy deduplication, then output assembly.\<close>

definition admitRow :: "cleaningConfig \<Rightarrow> host \<Rightarrow> procState \<Rightarrow> jstring list \<Rightarrow> procState" where
  "admitRow config H st rawCells =
     (if removeEmpty config \<and> list_all isBlank rawCells then dropRow st rawCells
      else if removeRowsWithEmptyValues config \<and> list_ex isBlank rawCells then dropRow st rawCells
      else let dedupeKey = dedupeKeyOf (sourceIdColIndex st) rawCells
           in if removeDuplicates config \<and> dedupeKey \<in> seenHashes st then dropRow st rawCells
              else let st1 = (if removeDuplicates config
                              then st\<lparr> seenHashes := insert dedupeKey (seenHashes st) \<rparr>
                              else st)
                   in if fuzzyDuplicates config
                      then let fuzzyKey = fuzzyKeyOf H (sourceIdColIndex st) rawCells
                           in if fuzzyKey \<in> fuzzyHashes st1
                              then dropRow (st1\<lparr> fuzzyDupCount := fuzzyDupCount st1 + 1 \<rparr>) rawCells
                              else emitRow config
                                     (st1\<lparr> fuzzyHashes := insert fuzzyKey (fuzzyHashes st1) \<rparr>)
                                     rawCells
                      else emitRow config st1 rawCells)"

text \<open>
  The start of one iteration of the row loop on a non-blank line \<open>lines ! li\<close>: the row
  is gathered (quote merge, parse) and reconciled with the header count \<open>n\<close>. The result
  is the cells, the index of the last line the row took, and whether the row counts as
  a column mismatch.
\<close>

definition gatherRow ::
  "jstring list \<Rightarrow> nat \<Rightarrow> jstring \<Rightarrow> nat \<Rightarrow> jstring list \<times> nat \<times> bool" where
  "gatherRow lines li sep n =
     (let line = lines ! li;
          merged = (if countQuotes line mod 2 = 1 then mergeQuoted lines li line 0
                    else (li, line));
          li1 = fst merged;
          line1 = snd merged;
          rawCells = parseCSVLine line1 sep
      in if length rawCells \<noteq> n
         then (case tryMerge lines li1 n sep line1 1 of
                 Some (attemptCells, l) \<Rightarrow> (attemptCells, l, False)
               | None \<Rightarrow> (normalizeCells n rawCells, li1, True))
         else (rawCells, li1, False))"

text \<open>
  One iteration of the row loop on a non-blank line: the row is gathered, transformed and
  admitted. The result is the index of the last line the row took and the new state.
  Every read of the source in this block is guarded, so its \<open>catch\<close> branch is not
  reached and has no counterpart here.
\<close>

definition rowStep ::
  "cleaningConfig \<Rightarrow> host \<Rightarrow> jstring list \<Rightarrow> nat \<Rightarrow> procState \<Rightarrow> nat \<times> procState" where
  "rowStep config H lines li st =
     (let g = gatherRow lines li (separator st) (length (rawHeaders st));
          cells = fst g;
          li2 = fst (snd g);
          st1 = st\<lparr> totalOriginalRows := totalOriginalRows st + 1,
                   columnMismatchCount :=
                     (if snd (snd g) then columnMismatchCount st + 1 else columnMismatchCount st) \<rparr>;
          t = transformRow config H (rawHeaders st) (sourceIdColIndex st) cells
      in (li2, admitRow config H (st1\<lparr> totalFixedCells := totalFixedCells st1 + snd t \<rparr>) (fst t)))"

lemma mergeQuoted_index: "li \<le> fst (mergeQuoted lines li line merges)"
proof (induction lines li line merges rule: mergeQuoted.induct)
  case (1 lines li line merges)
  show ?case
  proof (cases "li + 1 < length lines \<and> countQuotes line mod 2 = 1 \<and> merges < 50")
    case True
    then have "li + 1 \<le> fst (mergeQuoted lines li line merges)"
      using "1.IH" by (subst mergeQuoted.simps) simp
    then show ?thesis by simp
  next
    case False
    then show ?thesis by (subst mergeQuoted.simps) auto
  qed
qed

lemma tryMerge_index: "tryMerge lines li n sep attempt m = Some (cs, l) \<Longrightarrow> li \<le> l"
proof (induction lines li n sep attempt m rule: tryMerge.induct)
  case (1 lines li n sep attempt m)
  show ?case
  proof (cases "m \<le> 10 \<and> li + m < length lines")
    case True
    let ?a = "attempt @ [newline] @ lines ! (li + m)"
    show ?thesis
    proof (cases "length (parseCSVLine ?a sep) = n")
      case True
      with \<open>m \<le> 10 \<and> li + m < length lines\<close> "1.prems" have "l = li + m"
        by (subst (asm) tryMerge.simps) (simp add: Let_def)
      then show ?thesis by simp
    next
      case False
      with \<open>m \<le> 10 \<and> li + m < length lines\<close> "1.prems"
      have "tryMerge lines li n sep ?a (m + 1) = Some (cs, l)"
        by (subst (asm) tryMerge.simps) (simp add: Let_def)
      with "1.IH" [OF True refl refl False] show ?thesis by simp
    qed
  next
    case False
    with "1.prems" show ?thesis by (subst (asm) tryMerge.simps) simp
  qed
qed

lemma gatherRow_index: "li \<le> fst (snd (gatherRow lines li sep n))"
proof -
  define merged where "merged = (if countQuotes (lines ! li) mod 2 = 1
      then mergeQuoted lines li (lines ! li) 0 else (li, lines ! li))"
  have l1: "li \<le> fst merged"
    unfolding merged_def using mergeQuoted_index [of li lines "lines ! li" 0] by simp
  show ?thesis
  proof (cases "length (parseCSVLine (snd merged) sep) \<noteq> n")
    case False
    then have "fst (snd (gatherRow lines li sep n)) = fst merged"
      by (simp add: gatherRow_def Let_def merged_def)
    with l1 show ?thesis by simp
  next
    case True
    show ?thesis
    proof (cases "tryMerge lines (fst merged) n sep (snd merged) 1")
      case None
      with True have "fst (snd (gatherRow lines li sep n)) = fst merged"
        by (simp add: gatherRow_def Let_def merged_def)
      with l1 show ?thesis by simp
    next
      case (Some r)
      obtain cs l where r: "r = (cs, l)" by (cases r)
      with True Some have "fst (snd (gatherRow lines li sep n)) = l"
        by (simp add: gatherRow_def Let_def merged_def)
      moreover from Some r have "fst merged \<le> l" using tryMerge_index by blast
      ultimately show ?thesis using l1 by simp
    qed
  qed
qed

lemma rowStep_index: "li \<le> fst (rowStep config H lines li st)"
  by (simp add: rowStep_def Let_def gatherRow_index)

text \<open>The row loop: \<open>for (li = 0; li < lines.length; li++)\<close>, where the body moves \<open>li\<close>
  forward over the lines it merges. A blank line is skipped and not counted.\<close>

function rowLoop ::
  "cleaningConfig \<Rightarrow> host \<Rightarrow> jstring list \<Rightarrow> nat \<Rightarrow> procState \<Rightarrow> procState" where
  "rowLoop config H lines li st =
     (if li < length lines
      then if trim (lines ! li) = [] then rowLoop config H lines (li + 1) st
           else (case rowStep config H lines li st of
                   (li', st') \<Rightarrow> rowLoop config H lines (li' + 1) st')
      else st)"
  by pat_completeness auto
termination
proof (relation "measure (\<lambda>(config, H, lines, li, st). length lines - li)", goal_cases)
  case 1
  show ?case by simp
next
  case (2 config H lines li st)
  then show ?case by simp
next
  case (3 config H lines li st li' st')
  have "li \<le> fst (rowStep config H lines li st)" by (rule rowStep_index)
  with 3 have "li \<le> li'" by (metis fst_conv)
  with 3 show ?case by simp
qed

declare rowLoop.simps [simp del]

section \<open>The chunk loop and \<open>processFile\<close>\<close>

text \<open>
  One iteration of \<open>while (offset < file.size)\<close>, entered with \<open>offset\<close>: the chunk is
  read, read progress is reported, the text is split into lines (the last, incomplete
  line is held back unless this is the last chunk), the header block and the row loop
  run, and processing progress is reported when the row count is a positive multiple
  of 5000.
\<close>

definition chunkStep ::
  "cleaningConfig \<Rightarrow> host \<Rightarrow> inputFile \<Rightarrow> nat \<Rightarrow> procState \<Rightarrow> procState option" where
  "chunkStep config H file offset st =
     (case readChunkAsText file offset of
        None \<Rightarrow> None
      | Some text \<Rightarrow>
          let offset' = offset + CHUNK_SIZE;
              readProgress = min 50 (of_nat offset' / of_nat (fileSize file) * 50);
              st1 = st\<lparr> progressCalls := progressCalls st @ [readProgress] \<rparr>;
              lines0 = splitLines (leftover st @ text);
              (lines1, rest) = (if offset' < fileSize file then (butlast lines0, last lines0)
                                else (lines0, []));
              (st2, lines2) = processHeader config H (st1\<lparr> leftover := rest \<rparr>) lines1;
              st3 = rowLoop config H lines2 0 st2
          in Some (if totalOriginalRows st3 mod 5000 = 0 \<and> totalOriginalRows st3 > 0
                   then st3\<lparr> progressCalls :=
                               progressCalls st3
                               @ [50 + of_nat offset' / of_nat (fileSize file) * 30] \<rparr>
                   else st3))"

function chunkLoop ::
  "cleaningConfig \<Rightarrow> host \<Rightarrow> inputFile \<Rightarrow> nat \<Rightarrow> procState \<Rightarrow> procState option" where
  "chunkLoop config H file offset st =
     (if offset < fileSize file
      then (case chunkStep config H file offset st of
              None \<Rightarrow> None
            | Some st' \<Rightarrow> chunkLoop config H file (offset + CHUNK_SIZE) st')
      else Some st)"
  by pat_completeness auto
termination
  by (relation "measure (\<lambda>(config, H, file, offset, st). fileSize file - offset)")
     (auto simp: CHUNK_SIZE_def)

declare chunkLoop.simps [simp del]

text \<open>The result of a run: the \<open>ProcessResult\<close> of the source and, for the statements
  about a run, the percents the progress sink received, the row log, the raw headers
  and the index of the source id column.\<close>

record processResult =
  cleanedChunks :: "jstring list"
  headers :: "jstring list"
  columnTypes :: "jstring \<rightharpoonup> columnType"
  stats :: cleaningStats
  resultSeparator :: jstring
  progressTrace :: "rat list"
  rowTrace :: "(jstring list \<times> jstring list option) list"
  rawHeaderNames :: "jstring list"
  sourceIdSlot :: int

definition processFile :: "cleaningConfig \<Rightarrow> host \<Rightarrow> inputFile \<Rightarrow> processResult option" where
  "processFile config H file =
     (case chunkLoop config H file 0 initialState of
        None \<Rightarrow> None
      | Some st \<Rightarrow>
          let chunks = (if length (rowBuffer st) > 0
                        then cleanedDataChunks st @ [joinWith (getEolChar (eol config)) (rowBuffer st)]
                        else cleanedDataChunks st);
              sampleData = getAllDataRows chunks (Some 500) (separator st)
          in Some \<lparr> cleanedChunks = chunks,
                    headers = fileHeaders st,
                    columnTypes = detectColumnTypes H (fileHeaders st) sampleData,
                    stats = \<lparr> original = totalOriginalRows st, cleaned = totalCleanedRows st,
                              removed = totalOriginalRows st - totalCleanedRows st,
                              cols = length (fileHeaders st), fixed = totalFixedCells st \<rparr>,
                    resultSeparator = separator st,
                    progressTrace = progressCalls st @ [85, 100],
                    rowTrace = rowLog st,
                    rawHeaderNames = rawHeaders st,
                    sourceIdSlot = sourceIdColIndex st \<rparr>)"

section \<open>A reference host\<close>

text \<open>
  A host to run the engine on concrete inputs: Basic Latin case mapping, a \<open>Date\<close>
  constructor that accepts the ISO form \<open>YYYY-MM-DD\<close> only (the one form ECMAScript
  fixes) and reads it in UTC, and \<open>00000\<close> for every random placeholder.
\<close>

definition daysInMonth :: "nat \<Rightarrow> nat \<Rightarrow> nat" where
  "daysInMonth y m =
     (if m = 2 then (if y mod 4 = 0 \<and> (y mod 100 \<noteq> 0 \<or> y mod 400 = 0) then 29 else 28)
      else if m = 4 \<or> m = 6 \<or> m = 9 \<or> m = 11 then 30 else 31)"

definition isoDate :: "jstring \<Rightarrow> (int \<times> nat \<times> nat) option" where
  "isoDate s =
     (if rxFull (cats [d4, chr 0x2D, d2, chr 0x2D, d2]) s
      then let y = parseDigits (take 4 s); m = parseDigits (take 2 (drop 5 s));
               d = parseDigits (drop 8 s)
           in if 1 \<le> m \<and> m \<le> 12 \<and> 1 \<le> d \<and> d \<le> daysInMonth y m
              then Some (int y, m - 1, d) else None
      else None)"

definition refHost :: host where
  "refHost = \<lparr> hostLower = map asciiLower, hostUpper = map asciiUpper, hostDate = isoDate,
               hostRandom = (\<lambda>i. js ''00000'') \<rparr>"

text \<open>
  A second host, for inputs outside Basic Latin and dates outside the calendar. Its case
  mappings are those of Unicode on the strings the statements use: \<open>toUpperCase\<close> turns
  the sharp s (\<open>0xDF\<close>) into \<open>SS\<close>, and \<open>toLowerCase\<close> turns the Deseret capital
  \<open>U+10400\<close>, the surrogate pair \<open>0xD801 0xDC00\<close>, into \<open>U+10428\<close>, the pair
  \<open>0xD801 0xDC28\<close>. Its \<open>Date\<close> constructor reads the ISO form as V8 does: a day up to
  31 is accepted in every month, and the days beyond the end of the month are counted
  into the next one.
\<close>

definition rollingDate :: "jstring \<Rightarrow> (int \<times> nat \<times> nat) option" where
  "rollingDate s =
     (if rxFull (cats [d4, chr 0x2D, d2, chr 0x2D, d2]) s
      then let y = parseDigits (take 4 s); m = parseDigits (take 2 (drop 5 s));
               d = parseDigits (drop 8 s)
           in if 1 \<le> m \<and> m \<le> 12 \<and> 1 \<le> d \<and> d \<le> 31
              then (if d \<le> daysInMonth y m then Some (int y, m - 1, d)
                    else Some (int y, m, d - daysInMonth y m))
              else None
      else None)"

definition v8Host :: host where
  "v8Host =
     \<lparr> hostLower = (\<lambda>s. replaceAll [0xD801, 0xDC00] [0xD801, 0xDC28] (map asciiLower s)),
       hostUpper = (\<lambda>s. concat (map (\<lambda>c. if c = 0xDF then [0x53, 0x53] else [asciiUpper c]) s)),
       hostDate = rollingDate,
       hostRandom = (\<lambda>i. js ''00000'') \<rparr>"

section \<open>Names used in the statements\<close>

text \<open>The candidate delimiters of \<open>detectSeparator\<close>, in their priority order.\<close>

definition candidates :: "nat list" where
  "candidates = [comma, tabc, semicolon, pipe]"

text \<open>A configuration with every toggle off, in standard mode; concrete configurations
  are updates of it.\<close>

definition baseConfig :: cleaningConfig where
  "baseConfig =
     \<lparr> tableName = js ''my_data'', pkColumn = [], eol = js ''LF'', encoding = js ''UTF-8'',
       mode = Standard, removeDuplicates = False, removeEmpty = False, trimWhitespace = False,
       normalizeValues = False, fixEncoding = False, fuzzyDuplicates = False,
       validateEmail = False, standardizePhone = False, normalizeCase = False,
       standardizeDate = False, detectOutliers = False, removeSpecialChars = False,
       crossFieldValidation = False, fillMissing = False, standardizeAddress = False,
       removeHtmlTags = False, fixNumberFormats = False, generateId = False,
       removeRowsWithEmptyValues = False \<rparr>"

text \<open>Two samples of ten values for the type inferencer: seven, and eight, valid dates.\<close>

definition sevenOfTen :: "jstring list" where
  "sevenOfTen =
     [js ''2020-06-15'', js ''2020-06-16'', js ''2020-06-17'', js ''2021-01-20'', js ''2021-02-28'',
      js ''2021-03-01'', js ''2022-12-05'', js ''pending'', js ''unknown'', js ''to be set'']"

definition eightOfTen :: "jstring list" where
  "eightOfTen =
     [js ''2020-06-15'', js ''2020-06-16'', js ''2020-06-17'', js ''2021-01-20'', js ''2021-02-28'',
      js ''2021-03-01'', js ''2022-12-05'', js ''2023-07-09'', js ''unknown'', js ''to be set'']"

text \<open>A sample of ninety values, sixty-three of them valid dates: exactly 70%.\<close>

definition sixtyThreeOfNinety :: "jstring list" where
  "sixtyThreeOfNinety = replicate 63 (js ''2024-01-15'') @ replicate 27 (js ''pending'')"





text \<open>The rows of a row log that were emitted, in order: the cells after the transform
  pass and the output cells.\<close>

fun emittedRows :: "(jstring list \<times> jstring list option) list \<Rightarrow> (jstring list \<times> jstring list) list" where
  "emittedRows [] = []"
| "emittedRows ((cells, None) # rest) = emittedRows rest"
| "emittedRows ((cells, Some out) # rest) = (cells, out) # emittedRows rest"

text \<open>A row passes the two empty-row filters of the configuration.\<close>

definition passesEmptyFilters :: "cleaningConfig \<Rightarrow> jstring list \<Rightarrow> bool" where
  "passesEmptyFilters config cells =
     (\<not> (removeEmpty config \<and> list_all isBlank cells)
      \<and> \<not> (removeRowsWithEmptyValues config \<and> list_ex isBlank cells))"

text \<open>Two rows agree in every position except the slot \<open>sid\<close>.\<close>

definition agreeExcept :: "int \<Rightarrow> jstring list \<Rightarrow> jstring list \<Rightarrow> bool" where
  "agreeExcept sid a b =
     (length a = length b \<and> list_all (\<lambda>k. int k = sid \<or> a ! k = b ! k) [0 ..< length a])"

text \<open>A file whose text fits one chunk and has only Basic Latin characters, so that its
  size in bytes is the length of the text.\<close>

definition textFile :: "jstring \<Rightarrow> inputFile" where
  "textFile t =
     \<lparr> fileSize = length t, readChunkAsText = (\<lambda>offset. if offset = 0 then Some t else None) \<rparr>"

definition textLine :: "string \<Rightarrow> jstring" where
  "textLine s = js s @ [newline]"

text \<open>The row \<open>rawCells\<close> is emitted from the state \<open>st\<close>: it passes the empty-row filters
  and neither deduplication drops it.\<close>

definition admitted :: "cleaningConfig \<Rightarrow> host \<Rightarrow> procState \<Rightarrow> jstring list \<Rightarrow> bool" where
  "admitted config H st rawCells =
     (passesEmptyFilters config rawCells
      \<and> \<not> (removeDuplicates config
             \<and> dedupeKeyOf (sourceIdColIndex st) rawCells \<in> seenHashes st)
      \<and> \<not> (fuzzyDuplicates config
             \<and> fuzzyKeyOf H (sourceIdColIndex st) rawCells \<in> fuzzyHashes st))"

text \<open>The cells of the row that the row step at \<open>li\<close> hands to the filters.\<close>

definition rowCells ::
  "cleaningConfig \<Rightarrow> host \<Rightarrow> jstring list \<Rightarrow> nat \<Rightarrow> procState \<Rightarrow> jstring list" where
  "rowCells config H lines li st =
     fst (transformRow config H (rawHeaders st) (sourceIdColIndex st)
            (fst (gatherRow lines li (separator st) (length (rawHeaders st)))))"

section \<open>Invariants of a run\<close>

text \<open>Before the header block has run: nothing is logged, buffered or written.\<close>

definition notStarted :: "procState \<Rightarrow> bool" where
  "notStarted st =
     (isFirstChunk st \<and> rowLog st = [] \<and> rowBuffer st = [] \<and> cleanedDataChunks st = []
      \<and> idCounter st = 1 \<and> seenHashes st = {})"

text \<open>After the header block has run: the output headers, the source id index and the
  header chunk are what the block made of the raw headers.\<close>

definition headerDone :: "cleaningConfig \<Rightarrow> host \<Rightarrow> procState \<Rightarrow> bool" where
  "headerDone config H st =
     (\<not> isFirstChunk st
      \<and> hasGeneratedId st = generateId config
      \<and> sourceIdColIndex st
          = (if generateId config then findIndex (\<lambda>h. toLowerCase H h = js ''id'') (rawHeaders st)
             else - 1)
      \<and> fileHeaders st
          = (if generateId config then js ''id'' # exceptIndex (sourceIdColIndex st) (rawHeaders st)
             else rawHeaders st)
      \<and> cleanedDataChunks st \<noteq> []
      \<and> hd (cleanedDataChunks st) = headerLine (fileHeaders st) (getEolChar (eol config)))"

text \<open>Every logged row is aligned with the raw headers, and every emitted row with the
  output headers.\<close>

definition rowsInv :: "procState \<Rightarrow> bool" where
  "rowsInv st =
     (\<forall>j < length (rowLog st).
        length (fst (rowLog st ! j)) = length (rawHeaders st)
        \<and> (\<forall>v. snd (rowLog st ! j) = Some v \<longrightarrow> length v = length (fileHeaders st)))"

text \<open>With a generated id column, the \<open>k\<close>-th emitted row is the decimal string of \<open>k\<close>
  followed by the cells outside the source id slot, and the counter is one ahead.\<close>

definition idsInv :: "procState \<Rightarrow> bool" where
  "idsInv st =
     (hasGeneratedId st \<longrightarrow>
        idCounter st = Suc (length (emittedRows (rowLog st)))
        \<and> (\<forall>k < length (emittedRows (rowLog st)).
              snd (emittedRows (rowLog st) ! k)
                = decStr (Suc k)
                  # exceptIndex (sourceIdColIndex st) (fst (emittedRows (rowLog st) ! k))))"

text \<open>With exact deduplication, the seen keys are the keys of the logged rows that passed
  the empty-row filters.\<close>

definition seenInv :: "cleaningConfig \<Rightarrow> procState \<Rightarrow> bool" where
  "seenInv config st =
     (removeDuplicates config \<longrightarrow>
        seenHashes st
          = {dedupeKeyOf (sourceIdColIndex st) (fst (rowLog st ! i)) | i.
               i < length (rowLog st) \<and> passesEmptyFilters config (fst (rowLog st ! i))})"

text \<open>The logged row \<open>j\<close> is the first of its dedupe key among the rows that passed the
  empty-row filters.\<close>

definition firstOfKey :: "cleaningConfig \<Rightarrow> int \<Rightarrow> (jstring list \<times> jstring list option) list \<Rightarrow> nat \<Rightarrow> bool" where
  "firstOfKey config sid rows j =
     (\<forall>i < j. passesEmptyFilters config (fst (rows ! i)) \<longrightarrow>
        dedupeKeyOf sid (fst (rows ! i)) \<noteq> dedupeKeyOf sid (fst (rows ! j)))"

text \<open>An emitted row passed the empty-row filters and, under exact deduplication, is the
  first of its key; without fuzzy deduplication every such row is emitted.\<close>

definition fateInv :: "cleaningConfig \<Rightarrow> procState \<Rightarrow> bool" where
  "fateInv config st =
     (\<forall>j < length (rowLog st).
        (snd (rowLog st ! j) \<noteq> None \<longrightarrow>
           passesEmptyFilters config (fst (rowLog st ! j))
           \<and> (removeDuplicates config \<longrightarrow> firstOfKey config (sourceIdColIndex st) (rowLog st) j))
        \<and> (\<not> fuzzyDuplicates config \<and> passesEmptyFilters config (fst (rowLog st ! j))
            \<and> (removeDuplicates config \<longrightarrow> firstOfKey config (sourceIdColIndex st) (rowLog st) j)
            \<longrightarrow> snd (rowLog st ! j) \<noteq> None))"

definition runInv :: "cleaningConfig \<Rightarrow> host \<Rightarrow> procState \<Rightarrow> bool" where
  "runInv config H st =
     (headerDone config H st \<and> rowsInv st \<and> idsInv st \<and> seenInv config st \<and> fateInv config st)"

chapter \<open>Verification\<close>

section \<open>Row parser and separator detector\<close>

































lemma detectSeparator_cases:
  "detectSeparator line =
     (if countChar tabc line \<le> countChar comma line \<and> countChar semicolon line \<le> countChar comma line
         \<and> countChar pipe line \<le> countChar comma line then [comma]
      else if countChar semicolon line \<le> countChar tabc line \<and> countChar pipe line \<le> countChar tabc line
      then [tabc]
      else if countChar pipe line \<le> countChar semicolon line then [semicolon]
      else [pipe])"
  by (simp add: detectSeparator_def separatorCounts_def)

text \<open>
  Claim C9. \<open>detectSeparator\<close> returns one of the four candidates; no candidate occurs
  more often in the line; every candidate before it in the order comma, tab, semicolon,
  pipe occurs strictly less often (a tie goes to the earlier one); and when no candidate
  occurs at all the result is the comma. The function is total: there is no input on
  which it fails.
\<close>

theorem detectSeparator_highest:
  "\<exists>c. detectSeparator line = [c] \<and> c \<in> set candidates
     \<and> (\<forall>d \<in> set candidates. countChar d line \<le> countChar c line)
     \<and> (\<forall>d \<in> set (takeWhile (\<lambda>d. d \<noteq> c) candidates). countChar d line < countChar c line)
     \<and> ((\<forall>d \<in> set candidates. countChar d line = 0) \<longrightarrow> c = comma)"
proof -
  let ?n = "\<lambda>c. countChar c line"
  consider (a) "?n tabc \<le> ?n comma" "?n semicolon \<le> ?n comma" "?n pipe \<le> ?n comma"
    | (b) "\<not> (?n tabc \<le> ?n comma \<and> ?n semicolon \<le> ?n comma \<and> ?n pipe \<le> ?n comma)"
          "?n semicolon \<le> ?n tabc" "?n pipe \<le> ?n tabc"
    | (c) "\<not> (?n tabc \<le> ?n comma \<and> ?n semicolon \<le> ?n comma \<and> ?n pipe \<le> ?n comma)"
          "\<not> (?n semicolon \<le> ?n tabc \<and> ?n pipe \<le> ?n tabc)" "?n pipe \<le> ?n semicolon"
    | (d) "\<not> (?n tabc \<le> ?n comma \<and> ?n semicolon \<le> ?n comma \<and> ?n pipe \<le> ?n comma)"
          "\<not> (?n semicolon \<le> ?n tabc \<and> ?n pipe \<le> ?n tabc)" "\<not> ?n pipe \<le> ?n semicolon"
    by blast
  then show ?thesis
  proof cases
    case a
    then have "detectSeparator line = [comma]" by (simp add: detectSeparator_cases)
    with a show ?thesis by (intro exI [of _ comma]) (simp add: candidates_def)
  next
    case b
    then have "detectSeparator line = [tabc]" by (simp add: detectSeparator_cases)
    with b show ?thesis by (intro exI [of _ tabc]) (auto simp: candidates_def)
  next
    case c
    then have "detectSeparator line = [semicolon]" by (simp add: detectSeparator_cases)
    with c show ?thesis by (intro exI [of _ semicolon]) (auto simp: candidates_def)
  next
    case d
    then have "detectSeparator line = [pipe]" by (simp add: detectSeparator_cases)
    with d show ?thesis by (intro exI [of _ pipe]) (auto simp: candidates_def)
  qed
qed

theorem detectSeparator_highest_witness:
  "detectSeparator (js ''a;b|c;d'') = [semicolon] \<and> detectSeparator (js ''a|b;c'') = [semicolon]
   \<and> detectSeparator (js ''abc'') = [comma]"
  using detectSeparator_highest [of "js ''a;b|c;d''"] detectSeparator_highest [of "js ''a|b;c''"]
    detectSeparator_highest [of "js ''abc''"]
  by (auto simp: js_def candidates_def countChar_def)

section \<open>Evaluation on concrete inputs\<close>

text \<open>The definitions the simplifier unfolds to run a pattern or a string function on a
  concrete string.\<close>

lemmas rx_defs = rxFull_def rxSearch_def lit_def litCI_def cats_def alts_def chr_def chrCI_def
  digit_def d2_def d3_def d4_def d12_def d13_def js_def isDigit_def isAlpha_def asciiUpper_def asciiLower_def

lemmas str_defs = trim_def isWhite_def startsWith_def endsWith_def

section \<open>Phone formatting is gated by the column name\<close>

lemma description_not_phone_column: "\<not> isPhoneColumnName (js ''description'')"
  by (simp add: isPhoneColumnName_def phoneColumnPattern_def rx_defs)

lemma seven_digits_phone_shaped: "looksLikePhone (js ''1234567'')"
  by (simp add: looksLikePhone_def isPhoneChar_def rx_defs str_defs)

lemma phoneStep_other_column:
  "\<not> isPhoneColumnName colName \<Longrightarrow> phoneStep config colName cn = cn"
  by (cases cn) (simp add: phoneStep_def phoneGuard_def applyWhen_def)

lemma phoneStep_disabled:
  "phoneStep (config\<lparr>standardizePhone := False\<rparr>) colName cn = cn"
  by (cases cn) (simp add: phoneStep_def phoneGuard_def applyWhen_def)

text \<open>
  Claim C4. The guard of the phone step holds only for a column whose name matches
  \<open>phone|mobile|cell|fax|tel|contact_no|contact_num|whatsapp\<close> (case-insensitive); on
  any other column the advanced loop treats a cell exactly as it does with phone
  standardization switched off. In particular the column \<open>description\<close> does not match,
  and its value \<open>1234567\<close>, though phone-shaped, is left unchanged by the phone step.
\<close>

theorem phone_gated_by_column_name:
  "(phoneGuard config colName c \<longrightarrow> isPhoneColumnName colName)
   \<and> (\<not> isPhoneColumnName colName \<longrightarrow>
        advancedCell config H colName c
          = advancedCell (config\<lparr>standardizePhone := False\<rparr>) H colName c)
   \<and> \<not> isPhoneColumnName (js ''description'') \<and> looksLikePhone (js ''1234567'')
   \<and> phoneStep config (js ''description'') (js ''1234567'', n) = (js ''1234567'', n)"
proof (intro conjI impI)
  show "phoneGuard config colName c \<Longrightarrow> isPhoneColumnName colName"
    by (simp add: phoneGuard_def)
  show "advancedCell config H colName c
          = advancedCell (config\<lparr>standardizePhone := False\<rparr>) H colName c"
    if "\<not> isPhoneColumnName colName"
    using that by (simp add: advancedCell_def phoneStep_other_column phoneStep_disabled)
  show "\<not> isPhoneColumnName (js ''description'')" by (rule description_not_phone_column)
  show "looksLikePhone (js ''1234567'')" by (rule seven_digits_phone_shaped)
  show "phoneStep config (js ''description'') (js ''1234567'', n) = (js ''1234567'', n)"
    by (simp add: phoneStep_other_column description_not_phone_column)
qed

lemma notes_not_phone_column: "\<not> isPhoneColumnName (js ''notes'')"
  by (simp add: isPhoneColumnName_def phoneColumnPattern_def rx_defs)

lemma phone_column_formatted:
  "advancedCell (baseConfig\<lparr>mode := Advanced, standardizePhone := True\<rparr>) H (js ''phone'')
     (js ''555-123-4567'') = (js ''(555) 123-4567'', 1)"
  by (simp add: advancedCell_def baseConfig_def applyWhen_def phoneStep_def phoneGuard_def
      isPhoneColumnName_def phoneColumnPattern_def looksLikePhone_def isPhoneChar_def
      standardizePhoneFn_def substring_def rx_defs str_defs)

theorem phone_gated_by_column_name_witness:
  "phoneGuard (baseConfig\<lparr>mode := Advanced, standardizePhone := True\<rparr>) (js ''phone'') (js ''555-123-4567'')
   \<and> isPhoneColumnName (js ''phone'')
   \<and> \<not> isPhoneColumnName (js ''notes'')
   \<and> advancedCell (baseConfig\<lparr>mode := Advanced, standardizePhone := True\<rparr>) refHost (js ''notes'')
        (js ''555-123-4567'') = (js ''555-123-4567'', 0)"
proof -
  let ?cfg = "baseConfig\<lparr>mode := Advanced, standardizePhone := True\<rparr>"
  have g: "phoneGuard ?cfg (js ''phone'') (js ''555-123-4567'')"
    by (simp add: baseConfig_def phoneGuard_def
      isPhoneColumnName_def phoneColumnPattern_def looksLikePhone_def isPhoneChar_def
      rx_defs str_defs)
  have off: "advancedCell (?cfg\<lparr>standardizePhone := False\<rparr>) refHost (js ''notes'')
        (js ''555-123-4567'') = (js ''555-123-4567'', 0)"
    by (simp add: advancedCell_def baseConfig_def applyWhen_def phoneStep_def phoneGuard_def)
  from phone_gated_by_column_name [of ?cfg "js ''phone''" "js ''555-123-4567''" refHost 0]
    phone_gated_by_column_name [of ?cfg "js ''notes''" "js ''555-123-4567''" refHost 0]
    g notes_not_phone_column off
  show ?thesis by simp
qed

section \<open>Null normalization\<close>

text \<open>
  Claim C5 says that null normalization is case-insensitive, so that \<open>nUll\<close>, \<open>Na\<close>
  and \<open>NoNe\<close> become empty. The pattern of the pipeline lists some spellings of each
  token and has no \<open>i\<close> flag: the three values pass through unchanged, in the cell
  function and in the standard pass of a row (where \<open>NA\<close> next to it is emptied). The
  pattern of the type inferencer, which has the flag, does take \<open>Na\<close> for a null token.
\<close>

theorem normalizeValue_mixed_case_kept:
  "normalizeValue (js ''Na'') = js ''Na'' \<and> normalizeValue (js ''nUll'') = js ''nUll''
   \<and> normalizeValue (js ''NoNe'') = js ''NoNe''
   \<and> standardPass (baseConfig\<lparr>normalizeValues := True\<rparr>) [js ''Na'', js ''NA''] = ([js ''Na'', []], 1)
   \<and> rxFull sampleNullish (js ''Na'')"
  by (simp add: standardPass_def baseConfig_def normalizeValue_def nullToken_def sampleNullish_def
      rx_defs str_defs)

section \<open>Cell transforms: totality, empty input, idempotence\<close>

lemma take_take_drop: "take a d @ take b (drop a d) @ drop (a + b) d = d"
proof -
  have "take b (drop a d) @ drop (a + b) d = drop a d"
    by (metis add.commute append_take_drop_id drop_drop)
  then show ?thesis by simp
qed

lemma digits_take: "\<forall>c \<in> set d. isDigit c \<Longrightarrow> filter isDigit (take n d) = take n d"
  by (rule filter_True) (auto dest: in_set_takeD)

lemma digits_drop: "\<forall>c \<in> set d. isDigit c \<Longrightarrow> filter isDigit (drop n d) = drop n d"
  by (rule filter_True) (auto dest: in_set_dropD)

lemma digits_take_drop:
  "\<forall>c \<in> set d. isDigit c \<Longrightarrow> filter isDigit (take n (drop m d)) = take n (drop m d)"
  by (rule filter_True) (auto dest!: in_set_takeD in_set_dropD)

lemma phone_punctuation:
  "filter isDigit (js ''('') = []" "filter isDigit (js '') '') = []"
  "filter isDigit (js ''-'') = []" "filter isDigit (js ''+1 ('') = [0x31]"
  "filter isDigit (js ''+'') = []" "filter isDigit (js '' ('') = []"
  by (simp_all add: js_def isDigit_def)

lemma phone10_digits:
  assumes "\<forall>c \<in> set d. isDigit c"
  shows "filter isDigit (js ''('' @ substring 0 3 d @ js '') '' @ substring 3 6 d @ js ''-''
           @ drop 6 d) = d"
proof -
  have "filter isDigit (js ''('' @ substring 0 3 d @ js '') '' @ substring 3 6 d @ js ''-''
           @ drop 6 d) = take 3 d @ take 3 (drop 3 d) @ drop 6 d"
    using assms
    by (simp add: substring_def phone_punctuation digits_take digits_drop digits_take_drop)
  also have "\<dots> = d" using take_take_drop [of 3 d 3] by simp
  finally show ?thesis .
qed

lemma phone11_digits:
  assumes "\<forall>c \<in> set d. isDigit c" and "d \<noteq> []" and "hd d = 0x31"
  shows "filter isDigit (js ''+1 ('' @ substring 1 4 d @ js '') '' @ substring 4 7 d @ js ''-''
           @ drop 7 d) = d"
proof -
  from assms obtain r where r: "d = 0x31 # r" by (cases d) auto
  have "filter isDigit (js ''+1 ('' @ substring 1 4 d @ js '') '' @ substring 4 7 d @ js ''-''
           @ drop 7 d) = 0x31 # (take 3 (drop 1 d) @ take 3 (drop 4 d) @ drop 7 d)"
    using assms(1)
    by (simp add: substring_def phone_punctuation digits_take digits_drop digits_take_drop)
  also have "\<dots> = 0x31 # (take 3 r @ take 3 (drop 3 r) @ drop 6 r)" by (simp add: r)
  also have "\<dots> = d" using take_take_drop [of 3 r 3] by (simp add: r)
  finally show ?thesis .
qed

lemma phoneCC_digits:
  assumes "\<forall>c \<in> set d. isDigit c"
  shows "filter isDigit (js ''+'' @ substring 0 (length d - 10) d @ js '' (''
      @ substring 0 3 (drop (length d - 10) d) @ js '') ''
      @ substring 3 6 (drop (length d - 10) d) @ js ''-'' @ drop 6 (drop (length d - 10) d)) = d"
proof -
  let ?r = "drop (length d - 10) d"
  have r: "\<forall>c \<in> set ?r. isDigit c" using assms by (auto dest: in_set_dropD)
  have "filter isDigit (js ''+'' @ substring 0 (length d - 10) d @ js '' (''
      @ substring 0 3 ?r @ js '') '' @ substring 3 6 ?r @ js ''-'' @ drop 6 ?r)
      = take (length d - 10) d @ (take 3 ?r @ take 3 (drop 3 ?r) @ drop 6 ?r)"
    using assms r
    by (simp add: substring_def phone_punctuation digits_take [of d] digits_take [of ?r]
        digits_drop [of ?r] digits_take_drop [of ?r] del: drop_drop)
  also have "\<dots> = take (length d - 10) d @ ?r" using take_take_drop [of 3 ?r 3] by simp
  also have "\<dots> = d" by simp
  finally show ?thesis .
qed

lemma standardizePhoneFn_digits:
  "filter isDigit (standardizePhoneFn phone) = filter isDigit phone"
proof -
  let ?d = "filter isDigit phone"
  have d: "\<forall>c \<in> set ?d. isDigit c" by simp
  show ?thesis
  proof (cases "phone = []")
    case True
    then show ?thesis by (simp add: standardizePhoneFn_def)
  next
    case ne: False
    consider (a) "length ?d = 10" | (b) "length ?d \<noteq> 10" "length ?d = 11 \<and> hd ?d = 0x31"
      | (c) "length ?d \<noteq> 10" "\<not> (length ?d = 11 \<and> hd ?d = 0x31)" "length ?d \<ge> 11"
      | (e) "length ?d \<noteq> 10" "\<not> (length ?d = 11 \<and> hd ?d = 0x31)" "\<not> length ?d \<ge> 11"
      by blast
    then show ?thesis
    proof cases
      case a
      with ne have "standardizePhoneFn phone = js ''('' @ substring 0 3 ?d @ js '') ''
          @ substring 3 6 ?d @ js ''-'' @ drop 6 ?d"
        by (simp add: standardizePhoneFn_def Let_def)
      then show ?thesis by (simp only: phone10_digits [OF d])
    next
      case b
      then have n: "?d \<noteq> []" by auto
      from ne b have "standardizePhoneFn phone = js ''+1 ('' @ substring 1 4 ?d @ js '') ''
          @ substring 4 7 ?d @ js ''-'' @ drop 7 ?d"
        by (simp add: standardizePhoneFn_def Let_def)
      then show ?thesis using b by (simp only: phone11_digits [OF d n])
    next
      case c
      then have nb: "(length ?d = 11 \<and> hd ?d = 0x31) = False" by simp
      from ne c(1,3) have "standardizePhoneFn phone = js ''+'' @ substring 0 (length ?d - 10) ?d @ js '' (''
          @ substring 0 3 (drop (length ?d - 10) ?d) @ js '') ''
          @ substring 3 6 (drop (length ?d - 10) ?d) @ js ''-'' @ drop 6 (drop (length ?d - 10) ?d)"
        by (simp add: standardizePhoneFn_def Let_def nb del: drop_drop)
      then show ?thesis by (simp only: phoneCC_digits [OF d])
    next
      case e
      then have nb: "(length ?d = 11 \<and> hd ?d = 0x31) = False" by simp
      from ne e(1,3) show ?thesis by (simp add: standardizePhoneFn_def Let_def nb)
    qed
  qed
qed

lemma standardizePhoneFn_idem:
  "standardizePhoneFn (standardizePhoneFn x) = standardizePhoneFn x"
proof (cases "x = []")
  case True
  then show ?thesis by (simp add: standardizePhoneFn_def)
next
  case ne: False
  define y where "y = standardizePhoneFn x"
  define d where "d = filter isDigit x"
  define A where "A = js ''('' @ substring 0 3 d @ js '') '' @ substring 3 6 d @ js ''-'' @ drop 6 d"
  define B where "B = js ''+1 ('' @ substring 1 4 d @ js '') '' @ substring 4 7 d @ js ''-'' @ drop 7 d"
  define C where "C = js ''+'' @ substring 0 (length d - 10) d @ js '' (''
      @ substring 0 3 (drop (length d - 10) d) @ js '') ''
      @ substring 3 6 (drop (length d - 10) d) @ js ''-'' @ drop 6 (drop (length d - 10) d)"
  have dy: "filter isDigit y = d"
    unfolding y_def d_def by (rule standardizePhoneFn_digits)
  have y: "y = (if length d = 10 then A else if length d = 11 \<and> hd d = 0x31 then B
                else if length d \<ge> 11 then C else x)"
    using ne by (simp add: y_def standardizePhoneFn_def Let_def d_def A_def B_def C_def)
  have yne: "y \<noteq> []"
    using ne by (simp add: y A_def B_def C_def js_def)
  have "standardizePhoneFn y = (if length d = 10 then A else if length d = 11 \<and> hd d = 0x31 then B
                else if length d \<ge> 11 then C else y)"
    using yne by (simp add: standardizePhoneFn_def [of y] Let_def dy A_def B_def C_def)
  also have "\<dots> = y"
    by (simp add: y)
  finally show ?thesis by (simp add: y_def)
qed

lemma removeSpecialCharsFn_idem:
  "removeSpecialCharsFn (removeSpecialCharsFn x) = removeSpecialCharsFn x"
  by (simp add: removeSpecialCharsFn_def)

lemma starM_chars:
  assumes "\<And>s t. t \<in> set (f s) \<Longrightarrow> set t \<subseteq> set s"
  shows "t \<in> set (starM f k s) \<Longrightarrow> set t \<subseteq> set s"
proof (induction k arbitrary: s t)
  case 0
  then show ?case by simp
next
  case (Suc k)
  from Suc.prems consider "t = s" | u where "u \<in> set (f s)" "t \<in> set (starM f k u)" by auto
  then show ?case
  proof cases
    case 1
    then show ?thesis by simp
  next
    case 2
    with Suc.IH [of t u] assms [of u s] show ?thesis by blast
  qed
qed

lemma rxm_chars: "t \<in> set (rxm r s) \<Longrightarrow> set t \<subseteq> set s"
proof (induction r arbitrary: s t)
  case Eps
  then show ?case by simp
next
  case (Cls p)
  then show ?case by (cases s) (auto split: if_splits)
next
  case (Cat a b)
  then obtain u where "u \<in> set (rxm a s)" "t \<in> set (rxm b u)" by auto
  with Cat.IH show ?case by blast
next
  case (Alt a b)
  from Alt.prems have "t \<in> set (rxm a s) \<or> t \<in> set (rxm b s)" by simp
  then show ?case using Alt.IH by blast
next
  case (Star r)
  then show ?case using starM_chars [of "rxm r"] by simp
qed

lemma groupedNumber_comma: "rxFull groupedNumber x \<Longrightarrow> comma \<in> set x"
proof -
  assume "rxFull groupedNumber x"
  then obtain t u where t: "t \<in> set (rxm d13 x)" and u: "u \<in> set (rxm (chr comma) t)"
    by (auto simp: rxFull_def groupedNumber_def cats_def)
  from u have "comma \<in> set t" by (cases t) (auto simp: chr_def split: if_splits)
  with rxm_chars [OF t] show ?thesis by auto
qed

lemma set_trim: "set (trim s) \<subseteq> set s"
  by (auto simp: trim_def dest!: set_dropWhileD)

lemma fixNumberFormat_idem: "fixNumberFormat (fixNumberFormat x) = fixNumberFormat x"
proof (cases "fixNumberFormat x = x")
  case True
  then show ?thesis by simp
next
  case False
  define cleaned where "cleaned = trim (filter (\<lambda>c. \<not> isCurrency c) x)"
  from False have r: "fixNumberFormat x = filter (\<lambda>c. c \<noteq> comma) cleaned"
    by (auto simp: fixNumberFormat_def Let_def cleaned_def split: if_splits)
  let ?r = "filter (\<lambda>c. c \<noteq> comma) cleaned"
  have "comma \<notin> set (trim (filter (\<lambda>c. \<not> isCurrency c) ?r))"
    using set_trim [of "filter (\<lambda>c. \<not> isCurrency c) ?r"] by auto
  then have "\<not> rxFull groupedNumber (trim (filter (\<lambda>c. \<not> isCurrency c) ?r))"
    using groupedNumber_comma by blast
  then have "fixNumberFormat ?r = ?r" by (simp add: fixNumberFormat_def Let_def)
  with r show ?thesis by simp
qed

lemma email_twice:
  "fixEmail v8Host [0xD801, 0x20, 0xDC00, 0x40, 0x62, 0x2E, 0x63]
     = [0xD801, 0xDC00, 0x40, 0x62, 0x2E, 0x63]"
  "fixEmail v8Host [0xD801, 0xDC00, 0x40, 0x62, 0x2E, 0x63]
     = [0xD801, 0xDC28, 0x40, 0x62, 0x2E, 0x63]"
  by (simp_all add: fixEmail_def v8Host_def toLowerCase_def replaceAll_def matchesAt_def
      asciiLower_def domainFixes_def emailShape_def notSpaceAt_def js_def rx_defs str_defs)

lemma date_twice:
  "standardizeDateFn v8Host (js ''31/02/2024'') = js ''2024-02-31''"
  "standardizeDateFn v8Host (js ''2024-02-31'') = js ''2024-03-02''"
  by (simp_all add: standardizeDateFn_def matchDMY_def isDigit_def isDateSep_def parseDigits_def
      padStart2_def decStr.simps dateViaHost_def v8Host_def rollingDate_def daysInMonth_def
      d2_def d4_def digit_def js_def rx_defs)

lemma case_twice:
  "normalizeCaseFn v8Host [0xDF, 0x61] (js ''name'') = js ''SSa''"
  "normalizeCaseFn v8Host (js ''SSa'') (js ''name'') = js ''Ssa''"
  by (simp_all add: normalizeCaseFn_def toLowerCase_def toUpperCase_def v8Host_def
      emailColumn_def urlColumn_def nameColumn_def asciiLower_def asciiUpper_def isWhite_def
      js_def rx_defs)

text \<open>
  Claim C8 says that every transform \<open>f\<close> of the library satisfies \<open>f(f(x)) = f(x)\<close> for
  every \<open>x\<close>. Five of the eight do not.
  \<^item> HTML stripping decodes \<open>&amp;\<close>, left by \<open>&amp;amp;\<close>, once more.
  \<^item> Encoding repair repairs the sequence \<open>0xC2 0xB0\<close> that it left of \<open>0xC2 0xC2 0xB0\<close>.
  \<^item> Email repair removes the space between the two halves of a surrogate pair; they
    then form the capital \<open>U+10400\<close>, which the second application lower-cases.
  \<^item> Date normalization turns \<open>31/02/2024\<close> into \<open>2024-02-31\<close> without asking the
    host; the second application hands that to \<open>Date\<close>, which on V8 is the 2nd of March.
  \<^item> Case normalization of a name column upper-cases the first code unit of the sharp s
    followed by \<open>a\<close> to \<open>SS\<close>; the second application lower-cases the second \<open>S\<close>.
\<close>

theorem transforms_not_all_idempotent:
  "removeHtmlTagsFn (js ''&amp;amp;'') = js ''&amp;''
   \<and> removeHtmlTagsFn (removeHtmlTagsFn (js ''&amp;amp;'')) = js ''&''
   \<and> fixEncodingIssues [0xC2, 0xC2, 0xB0] = [0xC2, 0xB0]
   \<and> fixEncodingIssues (fixEncodingIssues [0xC2, 0xC2, 0xB0]) = [0xB0]
   \<and> fixEmail v8Host [0xD801, 0x20, 0xDC00, 0x40, 0x62, 0x2E, 0x63]
       = [0xD801, 0xDC00, 0x40, 0x62, 0x2E, 0x63]
   \<and> fixEmail v8Host (fixEmail v8Host [0xD801, 0x20, 0xDC00, 0x40, 0x62, 0x2E, 0x63])
       = [0xD801, 0xDC28, 0x40, 0x62, 0x2E, 0x63]
   \<and> standardizeDateFn v8Host (js ''31/02/2024'') = js ''2024-02-31''
   \<and> standardizeDateFn v8Host (standardizeDateFn v8Host (js ''31/02/2024'')) = js ''2024-03-02''
   \<and> normalizeCaseFn v8Host [0xDF, 0x61] (js ''name'') = js ''SSa''
   \<and> normalizeCaseFn v8Host (normalizeCaseFn v8Host [0xDF, 0x61] (js ''name'')) (js ''name'')
       = js ''Ssa''"
proof -
  have a: "removeHtmlTagsFn (js ''&amp;amp;'') = js ''&amp;''
      \<and> removeHtmlTagsFn (removeHtmlTagsFn (js ''&amp;amp;'')) = js ''&''
      \<and> fixEncodingIssues [0xC2, 0xC2, 0xB0] = [0xC2, 0xB0]
      \<and> fixEncodingIssues (fixEncodingIssues [0xC2, 0xC2, 0xB0]) = [0xB0]"
    by (simp add: removeHtmlTagsFn_def replaceAllCI_def matchesAt_def fixEncodingIssues_def
        encodingFixes_def replaceAll_def stripBOM_def js_def asciiUpper_def)
  have e: "fixEmail v8Host (fixEmail v8Host [0xD801, 0x20, 0xDC00, 0x40, 0x62, 0x2E, 0x63])
      = [0xD801, 0xDC28, 0x40, 0x62, 0x2E, 0x63]"
    by (simp only: email_twice)
  have d: "standardizeDateFn v8Host (standardizeDateFn v8Host (js ''31/02/2024''))
      = js ''2024-03-02''"
    by (simp only: date_twice)
  have c: "normalizeCaseFn v8Host (normalizeCaseFn v8Host [0xDF, 0x61] (js ''name'')) (js ''name'')
      = js ''Ssa''"
    by (simp only: case_twice)
  from a e d c email_twice(1) date_twice(1) case_twice(1) show ?thesis by blast
qed

text \<open>
  Claim C8, amended. Each of the eight transforms is a function from strings to strings
  with no failing branch, and returns the empty string on the empty string (for every
  host and column name). Phone formatting, number-format repair and control-character
  stripping are idempotent on every input.
\<close>

theorem transforms_total_empty_idempotent:
  "fixEncodingIssues [] = [] \<and> fixEmail H [] = [] \<and> standardizePhoneFn [] = []
   \<and> standardizeDateFn H [] = [] \<and> normalizeCaseFn H [] columnName = []
   \<and> removeHtmlTagsFn [] = [] \<and> fixNumberFormat [] = [] \<and> removeSpecialCharsFn [] = []
   \<and> standardizePhoneFn (standardizePhoneFn x) = standardizePhoneFn x
   \<and> fixNumberFormat (fixNumberFormat x) = fixNumberFormat x
   \<and> removeSpecialCharsFn (removeSpecialCharsFn x) = removeSpecialCharsFn x"
  by (simp add: fixEncodingIssues_def fixEmail_def standardizePhoneFn_idem standardizeDateFn_def
      normalizeCaseFn_def removeHtmlTagsFn_def fixNumberFormat_idem removeSpecialCharsFn_idem
      standardizePhoneFn_def [of "[]"] fixNumberFormat_def [of "[]"] removeSpecialCharsFn_def [of "[]"])

section \<open>Type inference: the 70% thresholds\<close>

lemma bitlen_upper: "p < 2 ^ bitlen p"
proof (induction p rule: bitlen.induct)
  case (1 n)
  show ?case
  proof (cases "n = 0")
    case True
    then show ?thesis by (simp add: bitlen.simps)
  next
    case False
    with 1 have "n div 2 < 2 ^ bitlen (n div 2)" by simp
    then have "n < 2 * 2 ^ bitlen (n div 2)" by linarith
    with False show ?thesis by (subst bitlen.simps) simp
  qed
qed

lemma bitlen_lower: "p \<noteq> 0 \<Longrightarrow> 2 ^ (bitlen p - 1) \<le> p"
proof (induction p rule: bitlen.induct)
  case (1 n)
  show ?case
  proof (cases "n div 2 = 0")
    case True
    with "1.prems" have "n = 1" by presburger
    then show ?thesis by (simp add: bitlen.simps)
  next
    case False
    with 1 have ih: "2 ^ (bitlen (n div 2) - 1) \<le> n div 2" by simp
    from False have pos: "bitlen (n div 2) > 0" by (subst bitlen.simps) simp
    have "bitlen n = Suc (bitlen (n div 2))" using "1.prems" by (subst bitlen.simps) simp
    then have "(2::nat) ^ (bitlen n - 1) = 2 * 2 ^ (bitlen (n div 2) - 1)"
      using pos by (cases "bitlen (n div 2)") simp_all
    also have "\<dots> \<le> 2 * (n div 2)" using ih by simp
    also have "\<dots> \<le> n" by simp
    finally show ?thesis .
  qed
qed

lemma round53_close:
  assumes "p < n * 2 ^ 52"
  shows "round53 p < p + n \<and> p < round53 p + n"
proof (cases "bitlen p \<le> 53")
  case True
  from assms have "n > 0" by (cases n) auto
  with True show ?thesis by (simp add: round53_def)
next
  case False
  define sh where "sh = bitlen p - 53"
  define q where "q = p div 2 ^ sh"
  have shpos: "sh > 0" using False by (simp add: sh_def)
  have pne: "p \<noteq> 0" using False by (auto simp: bitlen.simps [of p] split: if_splits)
  have "bitlen p - 1 = 52 + sh" using False by (simp add: sh_def)
  with bitlen_lower [OF pne] have "(2::nat) ^ (52 + sh) \<le> p" by simp
  then have "(2::nat) ^ 52 * 2 ^ sh \<le> p" by (simp add: power_add)
  with assms have "(2::nat) ^ 52 * 2 ^ sh < n * 2 ^ 52" by linarith
  then have shn: "(2::nat) ^ sh < n" by simp
  have lo: "q * 2 ^ sh \<le> p" by (simp add: q_def)
  have hi: "p < q * 2 ^ sh + 2 ^ sh"
    using dividend_less_div_times [of "2 ^ sh" p] by (simp add: q_def algebra_simps)
  have r: "round53 p = q * 2 ^ sh \<or> round53 p = q * 2 ^ sh + 2 ^ sh"
    using False by (auto simp: round53_def Let_def sh_def q_def algebra_simps)
  from r lo hi shn show ?thesis by auto
qed

lemma exceeds70_above:
  assumes "7 * n < 10 * c" and "n < 2 ^ 32"
  shows "exceeds70 c n"
proof -
  let ?p = "n * 3152519739159347"
  have n8: "8 * n \<le> 2 ^ 52" using assms(2) by simp
  have "?p < n * 2 ^ 52 \<or> n = 0" by (cases n) auto
  then have "round53 ?p < ?p + n \<or> n = 0" using round53_close by blast
  moreover have "round53 0 = 0" by (simp add: round53_def bitlen.simps)
  ultimately have "10 * round53 ?p \<le> 10 * ?p + 10 * n" by (cases "n = 0") auto
  also have "\<dots> \<le> 7 * n * 2 ^ 52 + 8 * n" by simp
  also have "\<dots> \<le> 7 * n * 2 ^ 52 + 2 ^ 52" using n8 by simp
  also have "\<dots> = (7 * n + 1) * 2 ^ 52" by (simp add: algebra_simps)
  also have "\<dots> \<le> (10 * c) * 2 ^ 52" using assms(1) by (intro mult_right_mono) simp_all
  finally have le: "10 * round53 ?p \<le> 10 * (c * 2 ^ 52)" by (simp add: algebra_simps)
  have "round53 ?p \<noteq> c * 2 ^ 52"
  proof
    assume e: "round53 ?p = c * 2 ^ 52"
    show False
    proof (cases "n = 0")
      case True
      with assms(1) e show False by (simp add: round53_def bitlen.simps)
    next
      case False
      then have "?p < n * 2 ^ 52" by simp
      then have "round53 ?p < ?p + n" using round53_close by blast
      then have "10 * round53 ?p < 10 * ?p + 10 * n" by simp
      also have "\<dots> \<le> 7 * n * 2 ^ 52 + 8 * n" by simp
      also have "\<dots> \<le> 7 * n * 2 ^ 52 + 2 ^ 52" using n8 by simp
      also have "\<dots> = (7 * n + 1) * 2 ^ 52" by (simp add: algebra_simps)
      also have "\<dots> \<le> (10 * c) * 2 ^ 52" using assms(1) by (intro mult_right_mono) simp_all
      finally show False using e by (simp add: algebra_simps)
    qed
  qed
  with le show ?thesis by (simp add: exceeds70_def times07_def)
qed

lemma exceeds70_below:
  assumes "10 * c < 7 * n" and "n < 2 ^ 32"
  shows "\<not> exceeds70 c n"
proof -
  let ?p = "n * 3152519739159347"
  from assms(1) have npos: "n > 0" by (cases n) auto
  have n12: "12 * n \<le> 2 ^ 52" using assms(2) by simp
  from npos have "?p < n * 2 ^ 52" by simp
  then have c: "?p < round53 ?p + n" using round53_close by blast
  have "(10 * c + 1) * 2 ^ 52 \<le> (7 * n) * 2 ^ 52"
    using assms(1) by (intro mult_right_mono) simp_all
  then have "10 * (c * 2 ^ 52) + 2 ^ 52 \<le> 7 * n * 2 ^ 52" by (simp add: algebra_simps)
  then have "10 * (c * 2 ^ 52) + 12 * n \<le> 7 * n * 2 ^ 52" using n12 by linarith
  also have "7 * n * 2 ^ 52 = 10 * ?p + 2 * n" by simp
  finally have "10 * (c * 2 ^ 52) + 10 * n \<le> 10 * ?p" by simp
  also have "\<dots> < 10 * round53 ?p + 10 * n" using c by simp
  finally have "c * 2 ^ 52 < round53 ?p" by simp
  then show ?thesis by (simp add: exceeds70_def times07_def)
qed

lemma exceeds70_boundary: "\<not> exceeds70 7 10 \<and> exceeds70 63 90"
  by (simp add: exceeds70_def times07_def round53_def bitlen.simps Let_def)

lemma sample_dates:
  "map (isValidDate refHost) sevenOfTen
     = [True, True, True, True, True, True, True, False, False, False]"
  by (simp add: sevenOfTen_def isValidDate_def datePatterns_def refHost_def isoDate_def alpha_def
      daysInMonth_def parseDigits_def rx_defs str_defs)

lemma sample_dates8:
  "map (isValidDate refHost) eightOfTen
     = [True, True, True, True, True, True, True, True, False, False]"
  by (simp add: eightOfTen_def isValidDate_def datePatterns_def refHost_def isoDate_def alpha_def
      daysInMonth_def parseDigits_def rx_defs str_defs)

lemma sample_shapes:
  "\<not> list_all (rxFull intShape) sevenOfTen" "\<not> list_all (rxFull decimalShape) sevenOfTen"
  "\<not> list_all (rxFull boolShape) sevenOfTen" "filter looksLikeEmail sevenOfTen = []"
  "map length sevenOfTen = [10, 10, 10, 10, 10, 10, 10, 7, 7, 9]"
  by (simp_all add: sevenOfTen_def intShape_def decimalShape_def boolShape_def looksLikeEmail_def
      rx_defs)

lemma sample_shapes8:
  "\<not> list_all (rxFull intShape) eightOfTen" "\<not> list_all (rxFull decimalShape) eightOfTen"
  "\<not> list_all (rxFull boolShape) eightOfTen"
  by (simp_all add: eightOfTen_def intShape_def decimalShape_def boolShape_def rx_defs)

lemma count_filter_map: "length (filter P xs) = length (filter id (map P xs))"
  by (induction xs) auto

text \<open>
  Claim C6 says that a sample in which exactly 70% of the values are valid dates is
  classified \<open>date\<close>. The sample \<open>sevenOfTen\<close> has seven valid dates among ten values
  that are neither all integers, all decimals nor all booleans; its type is \<open>varchar\<close>:
  the test is \<open>dateCount > values.length * 0.7\<close>, and \<open>10 * 0.7\<close> is the double 7.
\<close>

theorem exactly_70_percent_dates_not_date:
  "length sevenOfTen = 10 \<and> length (filter (isValidDate refHost) sevenOfTen) = 7
   \<and> \<not> list_all (rxFull intShape) sevenOfTen \<and> \<not> list_all (rxFull decimalShape) sevenOfTen
   \<and> \<not> list_all (rxFull boolShape) sevenOfTen
   \<and> detectType refHost sevenOfTen = T_varchar"
proof -
  have n: "length sevenOfTen = 10" by (simp add: sevenOfTen_def)
  have d: "length (filter (isValidDate refHost) sevenOfTen) = 7"
    by (simp add: count_filter_map [of "isValidDate refHost"] sample_dates)
  have "detectType refHost sevenOfTen = T_varchar"
    using exceeds70_boundary
    by (simp add: detectType_def n d sample_shapes Let_def maxList_def
        exceeds70_def [of 0] times07_def round53_def bitlen.simps)
  with n d sample_shapes show ?thesis by simp
qed

lemma exceeds70_exact:
  assumes "10 * c = 7 * n"
  shows "exceeds70 c n = (10 * times07 n < 7 * n * 2 ^ 52)"
proof -
  have "exceeds70 c n = (10 * times07 n < 10 * (c * 2 ^ 52))"
    by (simp add: exceeds70_def mult.commute)
  also have "10 * (c * 2 ^ 52) = 7 * n * 2 ^ 52" using assms by simp
  finally show ?thesis .
qed

lemma sample_ninety:
  "isValidDate refHost (js ''2024-01-15'')" "\<not> isValidDate refHost (js ''pending'')"
  "\<not> rxFull intShape (js ''2024-01-15'')" "\<not> rxFull decimalShape (js ''2024-01-15'')"
  "\<not> rxFull boolShape (js ''2024-01-15'')"
  by (simp_all add: isValidDate_def datePatterns_def refHost_def isoDate_def alpha_def
      daysInMonth_def parseDigits_def intShape_def decimalShape_def boolShape_def rx_defs str_defs)

text \<open>
  Claim C6, amended. For a non-empty sample of \<open>n\<close> values (fewer than \<open>2^32\<close>, as every
  array) that is neither all integer-shaped, all decimal-shaped nor all boolean-shaped,
  with \<open>d\<close> valid dates and \<open>e\<close> values that look like emails: the type is \<open>date\<close>
  exactly when \<open>d > n * 0.7\<close> holds in double arithmetic, and \<open>email\<close> exactly when that
  fails and \<open>e > n * 0.7\<close> holds. So more than 70% of valid dates give \<open>date\<close> and
  fewer than 70% do not; at exactly 70% the type is \<open>date\<close> exactly when the double
  \<open>n * 0.7\<close> lies below the exact \<open>7n/10\<close>, as it does for 63 of 90 (\<open>90 * 0.7\<close> is
  \<open>62.99999999999999\<close>) and does not for 7 of 10 (\<open>10 * 0.7\<close> is \<open>7\<close>). The same three
  cases decide \<open>email\<close> for a column that is not \<open>date\<close>.
\<close>

theorem detectType_threshold:
  assumes "values \<noteq> []" and "\<not> list_all (rxFull intShape) values"
    and "\<not> list_all (rxFull decimalShape) values" and "\<not> list_all (rxFull boolShape) values"
    and "length values < 2 ^ 32"
    and "n = length values" and "d = length (filter (isValidDate H) values)"
    and "e = length (filter looksLikeEmail values)"
  shows "(detectType H values = T_date) = exceeds70 d n
       \<and> (detectType H values = T_email) = (\<not> exceeds70 d n \<and> exceeds70 e n)
       \<and> (7 * n < 10 * d \<longrightarrow> detectType H values = T_date)
       \<and> (10 * d < 7 * n \<longrightarrow> detectType H values \<noteq> T_date)
       \<and> (10 * d = 7 * n \<longrightarrow>
            (detectType H values = T_date) = (10 * times07 n < 7 * n * 2 ^ 52))
       \<and> (detectType H values \<noteq> T_date \<and> 7 * n < 10 * e \<longrightarrow> detectType H values = T_email)
       \<and> (10 * e < 7 * n \<longrightarrow> detectType H values \<noteq> T_email)
       \<and> (detectType H values \<noteq> T_date \<and> 10 * e = 7 * n \<longrightarrow>
            (detectType H values = T_email) = (10 * times07 n < 7 * n * 2 ^ 52))"
proof -
  have u: "detectType H values =
      (if exceeds70 d n then T_date
       else if exceeds70 e n then T_email
       else let maxLen = maxList (map length values)
            in if maxLen > 5000 then T_longtext else if maxLen > 500 then T_text
               else if maxLen > 255 then T_varchar_long else T_varchar)"
    using assms(1-4) by (simp add: detectType_def Let_def assms(6-8))
  have n: "n < 2 ^ 32" using assms(5,6) by simp
  have dt: "(detectType H values = T_date) = exceeds70 d n" by (simp add: u Let_def)
  have em: "(detectType H values = T_email) = (\<not> exceeds70 d n \<and> exceeds70 e n)"
    by (simp add: u Let_def)
  have a: "7 * n < 10 * c \<Longrightarrow> exceeds70 c n" for c using n by (simp add: exceeds70_above)
  have b: "10 * c < 7 * n \<Longrightarrow> \<not> exceeds70 c n" for c using n by (simp add: exceeds70_below)
  have c: "10 * c = 7 * n \<Longrightarrow> exceeds70 c n = (10 * times07 n < 7 * n * 2 ^ 52)" for c
    by (rule exceeds70_exact)
  show ?thesis
    unfolding dt em using a [of d] b [of d] c [of d] a [of e] b [of e] c [of e] by blast
qed

theorem detectType_threshold_witness:
  "sixtyThreeOfNinety \<noteq> [] \<and> \<not> list_all (rxFull intShape) sixtyThreeOfNinety
   \<and> \<not> list_all (rxFull decimalShape) sixtyThreeOfNinety
   \<and> \<not> list_all (rxFull boolShape) sixtyThreeOfNinety
   \<and> length sixtyThreeOfNinety = 90
   \<and> length (filter (isValidDate refHost) sixtyThreeOfNinety) = 63
   \<and> 10 * times07 90 < 7 * 90 * 2 ^ 52
   \<and> detectType refHost sixtyThreeOfNinety = T_date
   \<and> eightOfTen \<noteq> [] \<and> \<not> list_all (rxFull intShape) eightOfTen
   \<and> \<not> list_all (rxFull decimalShape) eightOfTen \<and> \<not> list_all (rxFull boolShape) eightOfTen
   \<and> length eightOfTen = 10 \<and> length (filter (isValidDate refHost) eightOfTen) = 8
   \<and> detectType refHost eightOfTen = T_date"
proof -
  have n: "length sixtyThreeOfNinety = 90" by (simp add: sixtyThreeOfNinety_def)
  have d: "length (filter (isValidDate refHost) sixtyThreeOfNinety) = 63"
    by (simp add: sixtyThreeOfNinety_def sample_ninety)
  have ne: "sixtyThreeOfNinety \<noteq> []" by (simp add: sixtyThreeOfNinety_def)
  have s: "\<not> list_all (rxFull intShape) sixtyThreeOfNinety"
    "\<not> list_all (rxFull decimalShape) sixtyThreeOfNinety"
    "\<not> list_all (rxFull boolShape) sixtyThreeOfNinety"
    by (simp_all add: sixtyThreeOfNinety_def sample_ninety list_all_iff)
  have lt: "length sixtyThreeOfNinety < 2 ^ 32" by (simp add: n)
  have t: "10 * times07 90 < 7 * 90 * 2 ^ 52"
    by (simp add: times07_def round53_def bitlen.simps Let_def)
  have n8: "length eightOfTen = 10" by (simp add: eightOfTen_def)
  have d8: "length (filter (isValidDate refHost) eightOfTen) = 8"
    by (simp add: count_filter_map [of "isValidDate refHost"] sample_dates8)
  have ne8: "eightOfTen \<noteq> []" by (simp add: eightOfTen_def)
  have lt8: "length eightOfTen < 2 ^ 32" by (simp add: n8)
  from detectType_threshold [OF ne s lt n [symmetric] d [symmetric] refl] t
  have a: "detectType refHost sixtyThreeOfNinety = T_date" by simp
  from detectType_threshold [OF ne8 sample_shapes8 lt8 n8 [symmetric] d8 [symmetric] refl]
  have b: "detectType refHost eightOfTen = T_date" by simp
  from a b n d ne s t n8 d8 ne8 sample_shapes8 show ?thesis by simp
qed

section \<open>The row loop and the chunk loop, step by step\<close>

lemma rowLoop_done: "\<not> li < length lines \<Longrightarrow> rowLoop config H lines li st = st"
  by (subst rowLoop.simps) simp

lemma rowLoop_blank:
  "li < length lines \<Longrightarrow> trim (lines ! li) = [] \<Longrightarrow>
     rowLoop config H lines li st = rowLoop config H lines (li + 1) st"
  by (subst rowLoop.simps) simp

lemma rowLoop_row:
  "li < length lines \<Longrightarrow> trim (lines ! li) \<noteq> [] \<Longrightarrow>
     rowLoop config H lines li st
       = rowLoop config H lines (fst (rowStep config H lines li st) + 1)
           (snd (rowStep config H lines li st))"
  by (subst rowLoop.simps) (simp add: split_def)

lemma chunkLoop_done:
  "\<not> offset < fileSize file \<Longrightarrow> chunkLoop config H file offset st = Some st"
  by (subst chunkLoop.simps) simp

lemma chunkLoop_step:
  "offset < fileSize file \<Longrightarrow>
     chunkLoop config H file offset st
       = (case chunkStep config H file offset st of
            None \<Rightarrow> None
          | Some st' \<Rightarrow> chunkLoop config H file (offset + CHUNK_SIZE) st')"
  by (subst chunkLoop.simps) simp

text \<open>A property that every row step preserves holds after the row loop.\<close>

lemma rowLoop_preserves:
  "P st \<Longrightarrow>
   (\<And>li s. P s \<Longrightarrow> li < length lines \<Longrightarrow> P (snd (rowStep config H lines li s))) \<Longrightarrow>
   P (rowLoop config H lines li st)"
proof (induction config H lines li st rule: rowLoop.induct)
  case (1 config H lines li st)
  show ?case
  proof (cases "li < length lines")
    case False
    with "1.prems" show ?thesis by (simp add: rowLoop_done)
  next
    case inb: True
    show ?thesis
    proof (cases "trim (lines ! li) = []")
      case True
      with inb "1.IH"(1) "1.prems" show ?thesis by (simp add: rowLoop_blank)
    next
      case False
      have "P (snd (rowStep config H lines li st))" using "1.prems"(1) inb by (rule "1.prems"(2))
      then have "P (rowLoop config H lines (fst (rowStep config H lines li st) + 1)
                     (snd (rowStep config H lines li st)))"
        using "1.prems"(2) by (intro "1.IH"(2) [OF inb False prod.collapse]) auto
      with inb False show ?thesis by (simp add: rowLoop_row)
    qed
  qed
qed

text \<open>A property that every chunk step preserves holds after the chunk loop.\<close>

lemma chunkLoop_preserves:
  "chunkLoop config H fl offset st = Some st' \<Longrightarrow> P st \<Longrightarrow>
   (\<And>off s s'. P s \<Longrightarrow> off < fileSize fl \<Longrightarrow> chunkStep config H fl off s = Some s' \<Longrightarrow> P s') \<Longrightarrow>
   P st'"
proof (induction config H fl offset st rule: chunkLoop.induct)
  case (1 config H fl offset st)
  show ?case
  proof (cases "offset < fileSize fl")
    case False
    with "1.prems" show ?thesis by (simp add: chunkLoop_done)
  next
    case True
    show ?thesis
    proof (cases "chunkStep config H fl offset st")
      case None
      with True "1.prems" show ?thesis by (simp add: chunkLoop_step)
    next
      case (Some s)
      with True "1.prems" have r: "chunkLoop config H fl (offset + CHUNK_SIZE) s = Some st'"
        by (simp add: chunkLoop_step)
      have "P s" using "1.prems"(2) True Some by (rule "1.prems"(3))
      with "1.IH" [OF True Some r] "1.prems"(3) show ?thesis by blast
    qed
  qed
qed

section \<open>What a row step changes\<close>

lemma emittedRows_snoc:
  "emittedRows (rows @ [(c, out)])
     = emittedRows rows @ (case out of None \<Rightarrow> [] | Some v \<Rightarrow> [(c, v)])"
  by (induction rows rule: emittedRows.induct) (auto split: option.splits)

lemma admitRow_setup:
  "rawHeaders (admitRow config H st c) = rawHeaders st"
  "fileHeaders (admitRow config H st c) = fileHeaders st"
  "sourceIdColIndex (admitRow config H st c) = sourceIdColIndex st"
  "hasGeneratedId (admitRow config H st c) = hasGeneratedId st"
  "separator (admitRow config H st c) = separator st"
  "isFirstChunk (admitRow config H st c) = isFirstChunk st"
  "progressCalls (admitRow config H st c) = progressCalls st"
  "leftover (admitRow config H st c) = leftover st"
  "totalOriginalRows (admitRow config H st c) = totalOriginalRows st"
  by (simp_all add: admitRow_def emitRow_def dropRow_def Let_def)

lemma admitRow_rowLog:
  "rowLog (admitRow config H st c)
     = rowLog st @ [(c, if admitted config H st c
                        then Some (clampCells (length (fileHeaders st)) (assembleOutput st c))
                        else None)]"
  by (simp add: admitRow_def emitRow_def dropRow_def admitted_def passesEmptyFilters_def
      assembleOutput_def Let_def)

lemma admitRow_idCounter:
  "idCounter (admitRow config H st c)
     = (if admitted config H st c \<and> hasGeneratedId st then idCounter st + 1 else idCounter st)"
  by (simp add: admitRow_def emitRow_def dropRow_def admitted_def passesEmptyFilters_def Let_def)

lemma admitRow_seenHashes:
  "seenHashes (admitRow config H st c)
     = (if removeDuplicates config \<and> passesEmptyFilters config c
        then insert (dedupeKeyOf (sourceIdColIndex st) c) (seenHashes st) else seenHashes st)"
  by (auto simp: admitRow_def emitRow_def dropRow_def passesEmptyFilters_def Let_def)

lemma admitRow_chunks:
  "\<exists>more. cleanedDataChunks (admitRow config H st c) = cleanedDataChunks st @ more"
  by (simp add: admitRow_def emitRow_def dropRow_def Let_def)

text \<open>The row step is \<open>admitRow\<close> on the cells of the row, from a state that differs from
  \<open>st\<close> in three counters only.\<close>

lemma rowStep_admit:
  "\<exists>a b c. snd (rowStep config H lines li st)
     = admitRow config H
         (st\<lparr> totalOriginalRows := a, columnMismatchCount := b, totalFixedCells := c \<rparr>)
         (rowCells config H lines li st)"
proof -
  let ?g = "gatherRow lines li (separator st) (length (rawHeaders st))"
  let ?t = "transformRow config H (rawHeaders st) (sourceIdColIndex st) (fst ?g)"
  have "snd (rowStep config H lines li st)
     = admitRow config H
         (st\<lparr> totalOriginalRows := totalOriginalRows st + 1,
              columnMismatchCount :=
                (if snd (snd ?g) then columnMismatchCount st + 1 else columnMismatchCount st),
              totalFixedCells := totalFixedCells st + snd ?t \<rparr>)
         (rowCells config H lines li st)"
    by (simp add: rowStep_def rowCells_def Let_def)
  then show ?thesis by blast
qed

lemma rowStep_setup:
  "rawHeaders (snd (rowStep config H lines li st)) = rawHeaders st"
  "fileHeaders (snd (rowStep config H lines li st)) = fileHeaders st"
  "sourceIdColIndex (snd (rowStep config H lines li st)) = sourceIdColIndex st"
  "hasGeneratedId (snd (rowStep config H lines li st)) = hasGeneratedId st"
  "separator (snd (rowStep config H lines li st)) = separator st"
  "isFirstChunk (snd (rowStep config H lines li st)) = isFirstChunk st"
  "progressCalls (snd (rowStep config H lines li st)) = progressCalls st"
  "leftover (snd (rowStep config H lines li st)) = leftover st"
  by (simp_all add: rowStep_def Let_def admitRow_setup)

lemma rowStep_count:
  "totalOriginalRows (snd (rowStep config H lines li st)) = totalOriginalRows st + 1"
  by (simp add: rowStep_def Let_def admitRow_setup)

lemma admitted_counters:
  "admitted config H (st\<lparr> totalOriginalRows := a, columnMismatchCount := b, totalFixedCells := c \<rparr>) cells
     = admitted config H st cells"
  by (simp add: admitted_def)

lemma assembleOutput_counters:
  "assembleOutput (st\<lparr> totalOriginalRows := a, columnMismatchCount := b, totalFixedCells := c \<rparr>) cells
     = assembleOutput st cells"
  by (simp add: assembleOutput_def)

lemma rowStep_rowLog:
  "rowLog (snd (rowStep config H lines li st))
     = rowLog st @ [(rowCells config H lines li st,
                     if admitted config H st (rowCells config H lines li st)
                     then Some (clampCells (length (fileHeaders st))
                                  (assembleOutput st (rowCells config H lines li st)))
                     else None)]"
proof -
  obtain a b c where "snd (rowStep config H lines li st)
     = admitRow config H
         (st\<lparr> totalOriginalRows := a, columnMismatchCount := b, totalFixedCells := c \<rparr>)
         (rowCells config H lines li st)"
    using rowStep_admit by blast
  then show ?thesis
    by (simp add: admitRow_rowLog admitted_counters assembleOutput_counters)
qed

lemma rowStep_idCounter:
  "idCounter (snd (rowStep config H lines li st))
     = (if admitted config H st (rowCells config H lines li st) \<and> hasGeneratedId st
        then idCounter st + 1 else idCounter st)"
proof -
  obtain a b c where "snd (rowStep config H lines li st)
     = admitRow config H
         (st\<lparr> totalOriginalRows := a, columnMismatchCount := b, totalFixedCells := c \<rparr>)
         (rowCells config H lines li st)"
    using rowStep_admit by blast
  then show ?thesis by (simp add: admitRow_idCounter admitted_counters)
qed

lemma rowStep_seenHashes:
  "seenHashes (snd (rowStep config H lines li st))
     = (if removeDuplicates config \<and> passesEmptyFilters config (rowCells config H lines li st)
        then insert (dedupeKeyOf (sourceIdColIndex st) (rowCells config H lines li st)) (seenHashes st)
        else seenHashes st)"
proof -
  obtain a b c where "snd (rowStep config H lines li st)
     = admitRow config H
         (st\<lparr> totalOriginalRows := a, columnMismatchCount := b, totalFixedCells := c \<rparr>)
         (rowCells config H lines li st)"
    using rowStep_admit by blast
  then show ?thesis by (simp add: admitRow_seenHashes)
qed

lemma rowStep_chunks:
  "\<exists>more. cleanedDataChunks (snd (rowStep config H lines li st)) = cleanedDataChunks st @ more"
proof -
  obtain a b c where "snd (rowStep config H lines li st)
     = admitRow config H
         (st\<lparr> totalOriginalRows := a, columnMismatchCount := b, totalFixedCells := c \<rparr>)
         (rowCells config H lines li st)"
    using rowStep_admit by blast
  then show ?thesis
    using admitRow_chunks [of config H
        "st\<lparr> totalOriginalRows := a, columnMismatchCount := b, totalFixedCells := c \<rparr>"
        "rowCells config H lines li st"]
    by simp
qed

section \<open>Cell counts\<close>

lemma exceptIndex_negative: "k < 0 \<Longrightarrow> exceptIndex k xs = xs"
proof -
  assume "k < 0"
  then have "filter (\<lambda>i. int i \<noteq> k) [0 ..< length xs] = [0 ..< length xs]"
    by (intro filter_True) auto
  then show ?thesis by (simp add: exceptIndex_def map_nth)
qed

lemma length_exceptIndex:
  "length xs = length ys \<Longrightarrow> length (exceptIndex k xs) = length (exceptIndex k ys)"
  by (simp add: exceptIndex_def)

lemma findIndex_range: "findIndex P xs = - 1 \<or> (0 \<le> findIndex P xs \<and> findIndex P xs < int (length xs))"
  by (induction xs) (auto simp: Let_def)

lemma clampCells_same: "length xs = n \<Longrightarrow> clampCells n xs = xs"
  by (simp add: clampCells_def)

lemma tryMerge_length:
  "tryMerge lines li n sep attempt m = Some (cs, l) \<Longrightarrow> length cs = n"
proof (induction lines li n sep attempt m rule: tryMerge.induct)
  case (1 lines li n sep attempt m)
  show ?case
  proof (cases "m \<le> 10 \<and> li + m < length lines")
    case True
    let ?a = "attempt @ [newline] @ lines ! (li + m)"
    show ?thesis
    proof (cases "length (parseCSVLine ?a sep) = n")
      case len: True
      with True "1.prems" have "cs = parseCSVLine ?a sep"
        by (subst (asm) tryMerge.simps) (auto simp: Let_def)
      with len show ?thesis by simp
    next
      case False
      with True "1.prems" have "tryMerge lines li n sep ?a (m + 1) = Some (cs, l)"
        by (subst (asm) tryMerge.simps) (simp add: Let_def)
      with "1.IH" [OF True refl refl False] show ?thesis by simp
    qed
  next
    case False
    with "1.prems" show ?thesis by (subst (asm) tryMerge.simps) simp
  qed
qed

lemma gatherRow_length: "length (fst (gatherRow lines li sep n)) = n"
proof -
  define merged where "merged = (if countQuotes (lines ! li) mod 2 = 1
      then mergeQuoted lines li (lines ! li) 0 else (li, lines ! li))"
  show ?thesis
  proof (cases "length (parseCSVLine (snd merged) sep) \<noteq> n")
    case False
    then show ?thesis by (simp add: gatherRow_def Let_def merged_def)
  next
    case True
    show ?thesis
    proof (cases "tryMerge lines (fst merged) n sep (snd merged) 1")
      case None
      with True show ?thesis
        by (simp add: gatherRow_def Let_def merged_def normalizeCells_def)
    next
      case (Some r)
      obtain cs l where r: "r = (cs, l)" by (cases r)
      with Some have "length cs = n" using tryMerge_length by blast
      with True Some r show ?thesis by (simp add: gatherRow_def Let_def merged_def)
    qed
  qed
qed

lemma transformRow_length:
  "length (fst (transformRow config H hdrs sid cells)) = length cells"
  by (simp add: transformRow_def standardPass_def advancedPass_def Let_def split_def)

lemma rowCells_length: "length (rowCells config H lines li st) = length (rawHeaders st)"
  by (simp add: rowCells_def transformRow_length gatherRow_length)

lemma assembleOutput_aligned:
  assumes "length cells = length (rawHeaders st)"
  shows "assembleOutput st cells
     = (if hasGeneratedId st then decStr (idCounter st) # exceptIndex (sourceIdColIndex st) cells
        else cells)"
  using assms by (simp add: assembleOutput_def exceptIndex_def)

lemma output_width:
  assumes "headerDone config H st" and "length cells = length (rawHeaders st)"
  shows "length (assembleOutput st cells) = length (fileHeaders st)"
proof (cases "generateId config")
  case True
  with assms(1) have f: "fileHeaders st = js ''id'' # exceptIndex (sourceIdColIndex st) (rawHeaders st)"
    and g: "hasGeneratedId st" by (simp_all add: headerDone_def)
  from g assms(2) have "assembleOutput st cells
      = decStr (idCounter st) # exceptIndex (sourceIdColIndex st) cells"
    by (simp add: assembleOutput_aligned)
  with f length_exceptIndex [OF assms(2), of "sourceIdColIndex st"] show ?thesis by simp
next
  case False
  with assms show ?thesis by (simp add: headerDone_def assembleOutput_aligned)
qed

section \<open>A row step preserves the invariants\<close>

lemma rowStep_rowLog_aligned:
  assumes "headerDone config H st"
  shows "rowLog (snd (rowStep config H lines li st))
     = rowLog st @ [(rowCells config H lines li st,
                     if admitted config H st (rowCells config H lines li st)
                     then Some (assembleOutput st (rowCells config H lines li st))
                     else None)]"
  using output_width [OF assms rowCells_length, of config H lines li]
  by (simp add: rowStep_rowLog clampCells_same)

lemma rowStep_headerDone:
  assumes "headerDone config H st"
  shows "headerDone config H (snd (rowStep config H lines li st))"
proof -
  obtain more where "cleanedDataChunks (snd (rowStep config H lines li st))
      = cleanedDataChunks st @ more"
    using rowStep_chunks by blast
  with assms show ?thesis by (simp add: headerDone_def rowStep_setup)
qed

lemma rowStep_rowsInv:
  assumes "headerDone config H st" and "rowsInv st"
  shows "rowsInv (snd (rowStep config H lines li st))"
proof -
  let ?c = "rowCells config H lines li st"
  have w: "length (assembleOutput st ?c) = length (fileHeaders st)"
    using output_width [OF assms(1) rowCells_length] .
  show ?thesis
    unfolding rowsInv_def
  proof (intro allI impI)
    fix j
    assume "j < length (rowLog (snd (rowStep config H lines li st)))"
    then have "j < length (rowLog st) \<or> j = length (rowLog st)"
      by (auto simp: rowStep_rowLog_aligned [OF assms(1)])
    then show "length (fst (rowLog (snd (rowStep config H lines li st)) ! j))
          = length (rawHeaders (snd (rowStep config H lines li st)))
        \<and> (\<forall>v. snd (rowLog (snd (rowStep config H lines li st)) ! j) = Some v \<longrightarrow>
               length v = length (fileHeaders (snd (rowStep config H lines li st))))"
    proof
      assume "j < length (rowLog st)"
      with assms(2) show ?thesis
        by (simp add: rowsInv_def rowStep_rowLog_aligned [OF assms(1)] rowStep_setup nth_append)
    next
      assume "j = length (rowLog st)"
      with w show ?thesis
        by (simp add: rowStep_rowLog_aligned [OF assms(1)] rowStep_setup rowCells_length)
    qed
  qed
qed

lemma rowStep_idsInv:
  assumes "headerDone config H st" and "idsInv st"
  shows "idsInv (snd (rowStep config H lines li st))"
proof (cases "hasGeneratedId st")
  case False
  then show ?thesis by (simp add: idsInv_def rowStep_setup)
next
  case gen: True
  let ?c = "rowCells config H lines li st"
  let ?em = "emittedRows (rowLog st)"
  from gen assms(2) have n: "idCounter st = Suc (length ?em)"
    and old: "\<forall>k < length ?em. snd (?em ! k)
        = decStr (Suc k) # exceptIndex (sourceIdColIndex st) (fst (?em ! k))"
    by (simp_all add: idsInv_def)
  have out: "assembleOutput st ?c = decStr (idCounter st) # exceptIndex (sourceIdColIndex st) ?c"
    using gen by (simp add: assembleOutput_aligned rowCells_length)
  show ?thesis
  proof (cases "admitted config H st ?c")
    case False
    with gen n old show ?thesis
      by (simp add: idsInv_def rowStep_setup rowStep_idCounter
          rowStep_rowLog_aligned [OF assms(1)] emittedRows_snoc)
  next
    case True
    have em': "emittedRows (rowLog (snd (rowStep config H lines li st)))
        = ?em @ [(?c, decStr (Suc (length ?em)) # exceptIndex (sourceIdColIndex st) ?c)]"
      using True out n by (simp add: rowStep_rowLog_aligned [OF assms(1)] emittedRows_snoc)
    have "\<forall>k < Suc (length ?em).
        snd ((?em @ [(?c, decStr (Suc (length ?em)) # exceptIndex (sourceIdColIndex st) ?c)]) ! k)
        = decStr (Suc k) # exceptIndex (sourceIdColIndex st)
            (fst ((?em @ [(?c, decStr (Suc (length ?em)) # exceptIndex (sourceIdColIndex st) ?c)]) ! k))"
      using old by (auto simp: nth_append less_Suc_eq)
    with gen True n show ?thesis
      by (simp add: idsInv_def rowStep_setup rowStep_idCounter em')
  qed
qed

lemma keys_snoc:
  "{k (fst ((rows @ [new]) ! i)) | i. i < Suc (length rows) \<and> p (fst ((rows @ [new]) ! i))}
     = (if p (fst new) then insert (k (fst new)) {k (fst (rows ! i)) | i. i < length rows \<and> p (fst (rows ! i))}
        else {k (fst (rows ! i)) | i. i < length rows \<and> p (fst (rows ! i))})"
  (is "?A = ?B")
proof (intro set_eqI iffI)
  fix x
  assume "x \<in> ?A"
  then obtain i where i: "i < Suc (length rows)" "p (fst ((rows @ [new]) ! i))"
    "x = k (fst ((rows @ [new]) ! i))" by blast
  show "x \<in> ?B"
  proof (cases "i < length rows")
    case True
    with i have "p (fst (rows ! i))" "x = k (fst (rows ! i))" by (simp_all add: nth_append)
    with True have "x \<in> {k (fst (rows ! i)) | i. i < length rows \<and> p (fst (rows ! i))}" by blast
    then show ?thesis by simp
  next
    case False
    with i(1) have "i = length rows" by simp
    with i have "p (fst new)" "x = k (fst new)" by simp_all
    then show ?thesis by simp
  qed
next
  fix x
  assume b: "x \<in> ?B"
  show "x \<in> ?A"
  proof (cases "p (fst new) \<and> x = k (fst new)")
    case True
    then have "length rows < Suc (length rows) \<and> p (fst ((rows @ [new]) ! length rows))
        \<and> x = k (fst ((rows @ [new]) ! length rows))" by simp
    then show ?thesis by blast
  next
    case False
    with b have "x \<in> {k (fst (rows ! i)) | i. i < length rows \<and> p (fst (rows ! i))}"
      by (auto split: if_splits)
    then obtain i where i: "i < length rows" "p (fst (rows ! i))" "x = k (fst (rows ! i))" by blast
    then have "i < Suc (length rows) \<and> p (fst ((rows @ [new]) ! i))
        \<and> x = k (fst ((rows @ [new]) ! i))" by (simp add: nth_append)
    then show ?thesis by blast
  qed
qed

lemma rowStep_seenInv:
  assumes "headerDone config H st" and "seenInv config st"
  shows "seenInv config (snd (rowStep config H lines li st))"
proof (cases "removeDuplicates config")
  case False
  then show ?thesis by (simp add: seenInv_def)
next
  case True
  let ?c = "rowCells config H lines li st"
  let ?sid = "sourceIdColIndex st"
  let ?log = "rowLog st"
  let ?new = "(?c, if admitted config H st ?c then Some (assembleOutput st ?c) else None)"
  from True assms(2) have s: "seenHashes st
      = {dedupeKeyOf ?sid (fst (?log ! i)) | i.
           i < length ?log \<and> passesEmptyFilters config (fst (?log ! i))}"
    by (simp add: seenInv_def)
  have log': "rowLog (snd (rowStep config H lines li st)) = ?log @ [?new]"
    by (rule rowStep_rowLog_aligned [OF assms(1)])
  have k: "{dedupeKeyOf ?sid (fst ((?log @ [?new]) ! i)) | i.
           i < Suc (length ?log) \<and> passesEmptyFilters config (fst ((?log @ [?new]) ! i))}
      = (if passesEmptyFilters config ?c then insert (dedupeKeyOf ?sid ?c) (seenHashes st)
         else seenHashes st)"
    unfolding s using keys_snoc [of "dedupeKeyOf ?sid" ?log ?new "passesEmptyFilters config"]
    by simp
  have "seenHashes (snd (rowStep config H lines li st))
      = (if passesEmptyFilters config ?c then insert (dedupeKeyOf ?sid ?c) (seenHashes st)
         else seenHashes st)"
    using True by (simp add: rowStep_seenHashes)
  also have "\<dots> = {dedupeKeyOf ?sid (fst ((?log @ [?new]) ! i)) | i.
           i < Suc (length ?log) \<and> passesEmptyFilters config (fst ((?log @ [?new]) ! i))}"
    by (rule k [symmetric])
  finally show ?thesis
    unfolding seenInv_def log' rowStep_setup by simp
qed

lemma firstOfKey_old:
  "j < length rows \<Longrightarrow> firstOfKey config sid (rows @ [new]) j = firstOfKey config sid rows j"
  by (auto simp: firstOfKey_def nth_append)

lemma firstOfKey_new:
  assumes "seenHashes st
      = {dedupeKeyOf sid (fst (rows ! i)) | i.
           i < length rows \<and> passesEmptyFilters config (fst (rows ! i))}"
  shows "firstOfKey config sid (rows @ [(c, out)]) (length rows)
     = (dedupeKeyOf sid c \<notin> seenHashes st)"
  unfolding assms by (auto simp: firstOfKey_def nth_append)

lemma rowStep_fateInv:
  assumes "headerDone config H st" and "seenInv config st" and "fateInv config st"
  shows "fateInv config (snd (rowStep config H lines li st))"
proof -
  let ?c = "rowCells config H lines li st"
  let ?sid = "sourceIdColIndex st"
  let ?log = "rowLog st"
  let ?new = "(?c, if admitted config H st ?c then Some (assembleOutput st ?c) else None)"
  have log': "rowLog (snd (rowStep config H lines li st)) = ?log @ [?new]"
    by (rule rowStep_rowLog_aligned [OF assms(1)])
  have new: "removeDuplicates config \<Longrightarrow>
      firstOfKey config ?sid (?log @ [?new]) (length ?log)
        = (dedupeKeyOf ?sid ?c \<notin> seenHashes st)"
    using assms(2) by (intro firstOfKey_new) (simp add: seenInv_def)
  show ?thesis
    unfolding fateInv_def log' rowStep_setup
  proof (intro allI impI)
    fix j
    assume "j < length (?log @ [?new])"
    then consider "j < length ?log" | "j = length ?log" by fastforce
    then show "(snd ((?log @ [?new]) ! j) \<noteq> None \<longrightarrow>
           passesEmptyFilters config (fst ((?log @ [?new]) ! j))
           \<and> (removeDuplicates config \<longrightarrow> firstOfKey config ?sid (?log @ [?new]) j))
        \<and> (\<not> fuzzyDuplicates config \<and> passesEmptyFilters config (fst ((?log @ [?new]) ! j))
            \<and> (removeDuplicates config \<longrightarrow> firstOfKey config ?sid (?log @ [?new]) j)
            \<longrightarrow> snd ((?log @ [?new]) ! j) \<noteq> None)"
    proof cases
      case 1
      from assms(3) 1 have old:
        "(snd (?log ! j) \<noteq> None \<longrightarrow>
           passesEmptyFilters config (fst (?log ! j))
           \<and> (removeDuplicates config \<longrightarrow> firstOfKey config ?sid ?log j))
        \<and> (\<not> fuzzyDuplicates config \<and> passesEmptyFilters config (fst (?log ! j))
            \<and> (removeDuplicates config \<longrightarrow> firstOfKey config ?sid ?log j)
            \<longrightarrow> snd (?log ! j) \<noteq> None)"
        unfolding fateInv_def by blast
      have e: "(?log @ [?new]) ! j = ?log ! j" using 1 by (simp add: nth_append)
      have f: "firstOfKey config ?sid (?log @ [?new]) j = firstOfKey config ?sid ?log j"
        using 1 by (rule firstOfKey_old)
      show ?thesis unfolding e f by (rule old)
    next
      case 2
      have e: "(?log @ [?new]) ! j = ?new" using 2 by simp
      show ?thesis
      proof (cases "removeDuplicates config")
        case True
        have f: "firstOfKey config ?sid (?log @ [?new]) j = (dedupeKeyOf ?sid ?c \<notin> seenHashes st)"
          using new [OF True] 2 by simp
        show ?thesis unfolding e f using True by (simp add: admitted_def)
      next
        case False
        show ?thesis unfolding e using False by (simp add: admitted_def)
      qed
    qed
  qed
qed

lemma rowStep_runInv:
  "runInv config H st \<Longrightarrow> runInv config H (snd (rowStep config H lines li st))"
  by (simp add: runInv_def rowStep_headerDone rowStep_rowsInv rowStep_idsInv rowStep_seenInv
      rowStep_fateInv)

lemma rowLoop_runInv:
  "runInv config H st \<Longrightarrow> runInv config H (rowLoop config H lines li st)"
  by (rule rowLoop_preserves) (simp_all add: rowStep_runInv)

section \<open>The header block and the chunk loop preserve the invariants\<close>

lemma runInv_progress:
  "runInv config H (st\<lparr> progressCalls := p \<rparr>) = runInv config H st"
  by (simp add: runInv_def headerDone_def rowsInv_def idsInv_def seenInv_def fateInv_def)

lemma runInv_leftover:
  "runInv config H (st\<lparr> leftover := l \<rparr>) = runInv config H st"
  by (simp add: runInv_def headerDone_def rowsInv_def idsInv_def seenInv_def fateInv_def)

lemma notStarted_progress: "notStarted (st\<lparr> progressCalls := p \<rparr>) = notStarted st"
  by (simp add: notStarted_def)

lemma notStarted_leftover: "notStarted (st\<lparr> leftover := l \<rparr>) = notStarted st"
  by (simp add: notStarted_def)

lemma splitAcc_nonempty: "splitAcc cur s \<noteq> []"
  by (induction cur s rule: splitAcc.induct) auto

lemma splitLines_nonempty: "splitLines s \<noteq> []"
  by (simp add: splitLines_def splitAcc_nonempty)

lemma processHeader_later:
  "\<not> isFirstChunk st \<Longrightarrow> processHeader config H st lines = (st, lines)"
  by (simp add: processHeader_def)

lemma processHeader_no_lines: "processHeader config H st [] = (st, [])"
  by (simp add: processHeader_def)

lemma processHeader_first:
  assumes "notStarted st" and "lines \<noteq> []"
  shows "runInv config H (fst (processHeader config H st lines))"
proof -
  define st' where "st' = fst (processHeader config H st lines)"
  from assms have f: "isFirstChunk st \<and> length lines > 0" by (simp add: notStarted_def)
  have flds: "\<not> isFirstChunk st'" "hasGeneratedId st' = generateId config"
    "rowLog st' = []" "idCounter st' = 1" "seenHashes st' = {}"
    "sourceIdColIndex st'
       = (if generateId config then findIndex (\<lambda>h. toLowerCase H h = js ''id'') (rawHeaders st')
          else - 1)"
    using f assms(1) by (simp_all add: st'_def processHeader_def Let_def notStarted_def)
  have fh: "fileHeaders st'
      = (if generateId config
         then js ''id'' # (if sourceIdColIndex st' = - 1 then rawHeaders st'
                           else exceptIndex (sourceIdColIndex st') (rawHeaders st'))
         else rawHeaders st')"
    using f by (simp add: st'_def processHeader_def Let_def)
  have "(if sourceIdColIndex st' = - 1 then rawHeaders st'
         else exceptIndex (sourceIdColIndex st') (rawHeaders st'))
      = exceptIndex (sourceIdColIndex st') (rawHeaders st')"
    by (simp add: exceptIndex_negative)
  with fh have fh': "fileHeaders st'
      = (if generateId config then js ''id'' # exceptIndex (sourceIdColIndex st') (rawHeaders st')
         else rawHeaders st')"
    by simp
  have ch: "cleanedDataChunks st' = [headerLine (fileHeaders st') (getEolChar (eol config))]"
    using f assms(1) by (simp add: st'_def processHeader_def Let_def notStarted_def)
  have "headerDone config H st'"
    unfolding headerDone_def using flds(1,2,6) fh' ch by simp
  moreover have "rowsInv st'" "idsInv st'" "seenInv config st'" "fateInv config st'"
    using flds by (simp_all add: rowsInv_def idsInv_def seenInv_def fateInv_def)
  ultimately show ?thesis by (simp add: runInv_def st'_def)
qed

text \<open>After a chunk step the run is still not started, or the invariants hold; after the
  step on the last chunk the header block has run.\<close>

lemma chunkStep_ok:
  assumes "notStarted st \<or> runInv config H st"
    and "chunkStep config H fl offset st = Some st'"
  shows "(notStarted st' \<or> runInv config H st')
         \<and> (\<not> offset + CHUNK_SIZE < fileSize fl \<longrightarrow> runInv config H st')"
proof -
  from assms(2) obtain chunk where rd: "readChunkAsText fl offset = Some chunk"
    by (auto simp: chunkStep_def split: option.splits)
  define parts where "parts = (if offset + CHUNK_SIZE < fileSize fl
      then (butlast (splitLines (leftover st @ chunk)), last (splitLines (leftover st @ chunk)))
      else (splitLines (leftover st @ chunk), []))"
  define st1 where "st1 = (st\<lparr> progressCalls := progressCalls st
      @ [min 50 (of_nat (offset + CHUNK_SIZE) / of_nat (fileSize fl) * 50)] \<rparr>)
        \<lparr> leftover := snd parts \<rparr>"
  define st3 where "st3 = rowLoop config H (snd (processHeader config H st1 (fst parts))) 0
      (fst (processHeader config H st1 (fst parts)))"
  have "chunkStep config H fl offset st
      = Some (if totalOriginalRows st3 mod 5000 = 0 \<and> totalOriginalRows st3 > 0
              then st3\<lparr> progressCalls := progressCalls st3
                         @ [50 + of_nat (offset + CHUNK_SIZE) / of_nat (fileSize fl) * 30] \<rparr>
              else st3)"
    unfolding chunkStep_def rd option.case Let_def split_def st3_def st1_def parts_def
    by (rule refl)
  with assms(2) have st': "st' = (if totalOriginalRows st3 mod 5000 = 0 \<and> totalOriginalRows st3 > 0
      then st3\<lparr> progressCalls := progressCalls st3
                 @ [50 + of_nat (offset + CHUNK_SIZE) / of_nat (fileSize fl) * 30] \<rparr>
      else st3)"
    by simp
  have s1: "notStarted st1 \<or> runInv config H st1"
    using assms(1)
    by (simp add: st1_def runInv_progress runInv_leftover notStarted_progress notStarted_leftover)
  have last: "\<not> offset + CHUNK_SIZE < fileSize fl \<Longrightarrow> fst parts \<noteq> []"
    by (simp add: parts_def splitLines_nonempty)
  have s3: "(notStarted st3 \<or> runInv config H st3)
      \<and> (\<not> offset + CHUNK_SIZE < fileSize fl \<longrightarrow> runInv config H st3)"
  proof (cases "notStarted st1")
    case True
    show ?thesis
    proof (cases "fst parts = []")
      case e: True
      then have "st3 = st1" by (simp add: st3_def processHeader_no_lines rowLoop_done)
      with True e last show ?thesis by auto
    next
      case False
      with True have "runInv config H (fst (processHeader config H st1 (fst parts)))"
        by (rule processHeader_first)
      then have "runInv config H st3" unfolding st3_def by (rule rowLoop_runInv)
      then show ?thesis by simp
    qed
  next
    case False
    with s1 have r: "runInv config H st1" by simp
    then have "\<not> isFirstChunk st1" by (simp add: runInv_def headerDone_def)
    then have "st3 = rowLoop config H (fst parts) 0 st1"
      by (simp add: st3_def processHeader_later)
    with r have "runInv config H st3" by (simp add: rowLoop_runInv)
    then show ?thesis by simp
  qed
  show ?thesis
    using s3 unfolding st'
    by (auto simp: runInv_progress notStarted_progress)
qed

lemma chunkLoop_ok:
  assumes "chunkLoop config H fl offset st = Some st'" and "notStarted st \<or> runInv config H st"
  shows "notStarted st' \<or> runInv config H st'"
  using assms
  by (rule chunkLoop_preserves [where P = "\<lambda>s. notStarted s \<or> runInv config H s"])
     (use chunkStep_ok in blast)

lemma chunkLoop_started:
  "chunkLoop config H fl offset st = Some st' \<Longrightarrow> offset < fileSize fl \<Longrightarrow>
   notStarted st \<or> runInv config H st \<Longrightarrow> runInv config H st'"
proof (induction config H fl offset st rule: chunkLoop.induct)
  case (1 config H fl offset st)
  from "1.prems"(1,2) obtain s where s: "chunkStep config H fl offset st = Some s"
    and r: "chunkLoop config H fl (offset + CHUNK_SIZE) s = Some st'"
    by (auto simp: chunkLoop_step split: option.splits)
  from chunkStep_ok [OF "1.prems"(3) s]
  have ok: "notStarted s \<or> runInv config H s"
    and lastc: "\<not> offset + CHUNK_SIZE < fileSize fl \<Longrightarrow> runInv config H s" by simp_all
  show ?case
  proof (cases "offset + CHUNK_SIZE < fileSize fl")
    case True
    with "1.IH" [OF "1.prems"(2) s r] ok show ?thesis by simp
  next
    case False
    with r have "st' = s" by (simp add: chunkLoop_done)
    with lastc False show ?thesis by simp
  qed
qed

lemma notStarted_initialState: "notStarted initialState"
  by (simp add: notStarted_def initialState_def)

text \<open>The fields of the result, read off the final state of the chunk loop.\<close>

lemma processFile_result:
  assumes "processFile config H fl = Some res"
  shows "\<exists>st. chunkLoop config H fl 0 initialState = Some st
     \<and> headers res = fileHeaders st \<and> rowTrace res = rowLog st
     \<and> rawHeaderNames res = rawHeaders st \<and> sourceIdSlot res = sourceIdColIndex st
     \<and> progressTrace res = progressCalls st @ [85, 100]
     \<and> cleanedChunks res
         = (if length (rowBuffer st) > 0
            then cleanedDataChunks st @ [joinWith (getEolChar (eol config)) (rowBuffer st)]
            else cleanedDataChunks st)"
proof (cases "chunkLoop config H fl 0 initialState")
  case None
  with assms show ?thesis by (simp add: processFile_def)
next
  case (Some st)
  from assms have "Some res = processFile config H fl" by simp
  also have "\<dots> = Some \<lparr> cleanedChunks = (if length (rowBuffer st) > 0
                        then cleanedDataChunks st @ [joinWith (getEolChar (eol config)) (rowBuffer st)]
                        else cleanedDataChunks st),
                    headers = fileHeaders st,
                    columnTypes = detectColumnTypes H (fileHeaders st)
                      (getAllDataRows (if length (rowBuffer st) > 0
                        then cleanedDataChunks st @ [joinWith (getEolChar (eol config)) (rowBuffer st)]
                        else cleanedDataChunks st) (Some 500) (separator st)),
                    stats = \<lparr> original = totalOriginalRows st, cleaned = totalCleanedRows st,
                              removed = totalOriginalRows st - totalCleanedRows st,
                              cols = length (fileHeaders st), fixed = totalFixedCells st \<rparr>,
                    resultSeparator = separator st,
                    progressTrace = progressCalls st @ [85, 100],
                    rowTrace = rowLog st,
                    rawHeaderNames = rawHeaders st,
                    sourceIdSlot = sourceIdColIndex st \<rparr>"
    unfolding processFile_def Some Let_def by (simp only: option.case)
  finally have r: "res = \<lparr> cleanedChunks = (if length (rowBuffer st) > 0
                        then cleanedDataChunks st @ [joinWith (getEolChar (eol config)) (rowBuffer st)]
                        else cleanedDataChunks st),
                    headers = fileHeaders st,
                    columnTypes = detectColumnTypes H (fileHeaders st)
                      (getAllDataRows (if length (rowBuffer st) > 0
                        then cleanedDataChunks st @ [joinWith (getEolChar (eol config)) (rowBuffer st)]
                        else cleanedDataChunks st) (Some 500) (separator st)),
                    stats = \<lparr> original = totalOriginalRows st, cleaned = totalCleanedRows st,
                              removed = totalOriginalRows st - totalCleanedRows st,
                              cols = length (fileHeaders st), fixed = totalFixedCells st \<rparr>,
                    resultSeparator = separator st,
                    progressTrace = progressCalls st @ [85, 100],
                    rowTrace = rowLog st,
                    rawHeaderNames = rawHeaders st,
                    sourceIdSlot = sourceIdColIndex st \<rparr>"
    by (simp only: option.inject)
  have "headers res = fileHeaders st" "rowTrace res = rowLog st"
    "rawHeaderNames res = rawHeaders st" "sourceIdSlot res = sourceIdColIndex st"
    "progressTrace res = progressCalls st @ [85, 100]"
    "cleanedChunks res
         = (if length (rowBuffer st) > 0
            then cleanedDataChunks st @ [joinWith (getEolChar (eol config)) (rowBuffer st)]
            else cleanedDataChunks st)"
    by (subst r, simp only: processResult.select_convs)+
  with Some show ?thesis by blast
qed

lemma processFile_ok:
  assumes "processFile config H fl = Some res"
  shows "\<exists>st. chunkLoop config H fl 0 initialState = Some st
     \<and> headers res = fileHeaders st \<and> rowTrace res = rowLog st
     \<and> rawHeaderNames res = rawHeaders st \<and> sourceIdSlot res = sourceIdColIndex st
     \<and> cleanedChunks res
         = (if length (rowBuffer st) > 0
            then cleanedDataChunks st @ [joinWith (getEolChar (eol config)) (rowBuffer st)]
            else cleanedDataChunks st)
     \<and> (notStarted st \<or> runInv config H st)
     \<and> (0 < fileSize fl \<longrightarrow> runInv config H st)"
proof -
  from processFile_result [OF assms] obtain st where
    st: "chunkLoop config H fl 0 initialState = Some st"
    and f: "headers res = fileHeaders st" "rowTrace res = rowLog st"
      "rawHeaderNames res = rawHeaders st" "sourceIdSlot res = sourceIdColIndex st"
      "cleanedChunks res
         = (if length (rowBuffer st) > 0
            then cleanedDataChunks st @ [joinWith (getEolChar (eol config)) (rowBuffer st)]
            else cleanedDataChunks st)"
    by blast
  have i: "notStarted initialState \<or> runInv config H initialState"
    by (simp add: notStarted_initialState)
  have a: "notStarted st \<or> runInv config H st"
    using st i by (rule chunkLoop_ok)
  have b: "runInv config H st" if "0 < fileSize fl"
    using st that i by (rule chunkLoop_started)
  from st f a b show ?thesis by (intro exI [of _ st]) simp
qed

end
